theory Spec2Isabelle
  imports Main "HOL-Library.Log_Nat"
begin

section \<open>Data model (apps/users/models.py, apps/tasks/models.py)\<close>

text \<open>
  Instants are timezone-aware datetimes; they are modelled as the number of microseconds
  since the epoch (UTC), the resolution of Python's \<^verbatim>\<open>datetime\<close>. A
  \<^verbatim>\<open>timedelta\<close> is a number of microseconds.
\<close>

type_synonym datetime = int
type_synonym timedelta = int

datatype Status = NEW | IN_PROGRESS | DONE

datatype Priority = LOW | MEDIUM | HIGH

datatype Permission = VIEW | EDIT

text \<open>
  User: the primary key and the unique email, the only field the model declares. The model
  declares no activity flag: \<^verbatim>\<open>is_active\<close> is the class attribute \<^verbatim>\<open>True\<close> it
  inherits from \<^verbatim>\<open>AbstractBaseUser\<close>.
\<close>

record User =
  user_id :: nat
  email :: string


text \<open>Task: \<open>owner\<close> is the foreign key (the owner's primary key).\<close>

record Task =
  task_id :: nat
  title :: string
  description :: "string option"
  status :: Status
  priority :: Priority
  deadline :: "datetime option"
  owner :: nat
  created_at :: datetime
  updated_at :: datetime

text \<open>TaskShare: \<open>task\<close> and \<open>shared_with\<close> are foreign keys.\<close>

record TaskShare =
  share_id :: nat
  task :: nat
  shared_with :: nat
  permission :: Permission
  shared_at :: datetime

text \<open>
  The tables, each a list of rows, and the counter that gives a new share its primary key.
\<close>

record database =
  users :: "User list"
  tasks :: "Task list"
  task_shares :: "TaskShare list"
  next_share_id :: nat

section \<open>Queries\<close>

datatype orm_error = DoesNotExist | MultipleObjectsReturned

text \<open>\<^verbatim>\<open>Model.objects.get(...)\<close>: the one row that matches, or one of its two exceptions.\<close>

definition objects_get :: "('a \<Rightarrow> bool) \<Rightarrow> 'a list \<Rightarrow> orm_error + 'a" where
  "objects_get P rows =
     (case filter P rows of
        [] \<Rightarrow> Inl DoesNotExist
      | [x] \<Rightarrow> Inr x
      | _ \<Rightarrow> Inl MultipleObjectsReturned)"

section \<open>Permissions (apps/tasks/permissions.py)\<close>

datatype http_method = GET | HEAD | OPTIONS | POST | PUT | PATCH | DELETE

definition SAFE_METHODS :: "http_method set" where
  "SAFE_METHODS = {GET, HEAD, OPTIONS}"

text \<open>
  \<^verbatim>\<open>IsTaskOwnerOrSharedWith.has_object_permission\<close>. Only \<^verbatim>\<open>DoesNotExist\<close> is
  caught; \<^verbatim>\<open>MultipleObjectsReturned\<close> leaves the method as an exception.
\<close>

definition IsTaskOwnerOrSharedWith_has_object_permission ::
    "TaskShare list \<Rightarrow> nat \<Rightarrow> http_method \<Rightarrow> Task \<Rightarrow> orm_error + bool" where
  "IsTaskOwnerOrSharedWith_has_object_permission shares request_user request_method obj =
     (if owner obj = request_user then Inr True
      else case objects_get (\<lambda>s. task s = task_id obj \<and> shared_with s = request_user) shares of
             Inr share \<Rightarrow>
               if request_method \<in> SAFE_METHODS then Inr True
               else Inr (permission share = EDIT)
           | Inl DoesNotExist \<Rightarrow> Inr False
           | Inl MultipleObjectsReturned \<Rightarrow> Inl MultipleObjectsReturned)"

definition CanShareTask_has_object_permission :: "nat \<Rightarrow> Task \<Rightarrow> orm_error + bool" where
  "CanShareTask_has_object_permission request_user obj = Inr (owner obj = request_user)"

section \<open>Views (apps/tasks/api/views.py, TaskViewSet)\<close>

datatype field_error = Required | Invalid | Invalid_choice | User_does_not_exist

text \<open>
  What a view answers when it does not succeed, with the HTTP status it carries.
  \<open>Server_error\<close> is an exception no handler catches.
\<close>

datatype api_error =
    NotAuthenticated
  | PermissionDenied
  | Http404
  | Validation_failed "(string \<times> field_error) list"
  | User_not_found
  | Cannot_share_with_yourself
  | Only_owner_can_delete
  | Share_not_found
  | Server_error orm_error

fun status_code :: "api_error \<Rightarrow> nat" where
  "status_code NotAuthenticated = 401"
| "status_code PermissionDenied = 403"
| "status_code Http404 = 404"
| "status_code (Validation_failed errors) = 400"
| "status_code User_not_found = 400"
| "status_code Cannot_share_with_yourself = 400"
| "status_code Only_owner_can_delete = 403"
| "status_code Share_not_found = 404"
| "status_code (Server_error e) = 500"

definition HTTP_200_OK :: nat where "HTTP_200_OK = 200"
definition HTTP_201_CREATED :: nat where "HTTP_201_CREATED = 201"
definition HTTP_204_NO_CONTENT :: nat where "HTTP_204_NO_CONTENT = 204"

text \<open>
  \<^verbatim>\<open>get_queryset\<close>: \<^verbatim>\<open>Task.objects.filter(Q(owner=user) | Q(shares__shared_with=user)).distinct()\<close>.
  The filter on \<^verbatim>\<open>shares__shared_with\<close> joins every task with its shares (a left outer
  join: a task with no share gives one row, with no share), the condition selects joined
  rows, and \<^verbatim>\<open>distinct()\<close> keeps one copy of each selected task row. The order of the
  result (\<^verbatim>\<open>-created_at\<close>) is not modelled.
\<close>

definition left_join_shares :: "Task list \<Rightarrow> TaskShare list \<Rightarrow> (Task \<times> TaskShare option) list" where
  "left_join_shares ts shares =
     concat (map (\<lambda>t. case filter (\<lambda>s. task s = task_id t) shares of
                          [] \<Rightarrow> [(t, None)]
                        | ss \<Rightarrow> map (\<lambda>s. (t, Some s)) ss) ts)"

definition owned_or_shared :: "nat \<Rightarrow> Task \<times> TaskShare option \<Rightarrow> bool" where
  "owned_or_shared user row =
     (owner (fst row) = user \<or>
      (case snd row of None \<Rightarrow> False | Some s \<Rightarrow> shared_with s = user))"

definition get_queryset :: "database \<Rightarrow> nat \<Rightarrow> Task list" where
  "get_queryset st user =
     remdups (map fst (filter (owned_or_shared user)
                          (left_join_shares (tasks st) (task_shares st))))"

text \<open>
  \<^verbatim>\<open>get_object\<close> (GenericAPIView): \<^verbatim>\<open>get_object_or_404\<close> on the queryset, then
  \<^verbatim>\<open>check_object_permissions\<close> with the object permission of the view. The request
  carries no filter, search or ordering parameter, so the filter backends leave the
  queryset as it is.
\<close>

definition get_object ::
    "database \<Rightarrow> nat \<Rightarrow> nat \<Rightarrow> (Task \<Rightarrow> orm_error + bool) \<Rightarrow> api_error + Task" where
  "get_object st user pk has_object_permission =
     (case objects_get (\<lambda>t. task_id t = pk) (get_queryset st user) of
        Inl DoesNotExist \<Rightarrow> Inl Http404
      | Inl MultipleObjectsReturned \<Rightarrow> Inl (Server_error MultipleObjectsReturned)
      | Inr obj \<Rightarrow>
          (case has_object_permission obj of
             Inl e \<Rightarrow> Inl (Server_error e)
           | Inr allowed \<Rightarrow> if allowed then Inr obj else Inl PermissionDenied))"

subsection \<open>TaskShareCreateSerializer (apps/tasks/api/serializers.py)\<close>

text \<open>
  \<^verbatim>\<open>validate_shared_with_email\<close>: the lookup is an exact match of the stored email with
  the lower-cased value; \<^verbatim>\<open>DoesNotExist\<close> becomes a validation error, any other
  exception is not caught (the outer \<open>Inl\<close>). \<open>str_lower\<close> stands for Python's
  \<^verbatim>\<open>str.lower()\<close>, which follows the Unicode case mapping: it is a parameter, and
  nothing is assumed of it.
\<close>

definition validate_shared_with_email ::
    "(string \<Rightarrow> string) \<Rightarrow> User list \<Rightarrow> string \<Rightarrow> orm_error + (field_error + string)" where
  "validate_shared_with_email str_lower us v =
     (case objects_get (\<lambda>u. email u = str_lower v) us of
        Inl DoesNotExist \<Rightarrow> Inr (Inl User_does_not_exist)
      | Inl MultipleObjectsReturned \<Rightarrow> Inl MultipleObjectsReturned
      | Inr u \<Rightarrow> Inr (Inr (str_lower v)))"

text \<open>
  The request data of the share action: each field as sent, or absent. \<open>permission\<close> is a
  choice field over the values \<^verbatim>\<open>'view'\<close> and \<^verbatim>\<open>'edit'\<close>, with default \<^verbatim>\<open>'view'\<close>.
\<close>

record share_request =
  req_shared_with_email :: "string option"
  req_permission :: "string option"

fun choice_value :: "Permission \<Rightarrow> string" where
  "choice_value VIEW = ''view''"
| "choice_value EDIT = ''edit''"

definition permission_field :: "string option \<Rightarrow> field_error + Permission" where
  "permission_field data =
     (case data of
        None \<Rightarrow> Inr VIEW
      | Some c \<Rightarrow>
          if c = choice_value VIEW then Inr VIEW
          else if c = choice_value EDIT then Inr EDIT
          else Inl Invalid_choice)"

text \<open>
  \<^verbatim>\<open>serializer.is_valid()\<close>: every field is validated and the errors of all fields are
  collected. \<open>EmailField\<close> stands for the format validation of the framework's
  \<^verbatim>\<open>EmailField\<close>: \<open>None\<close> when it refuses the input, the value it hands to
  \<^verbatim>\<open>validate_shared_with_email\<close> otherwise.
\<close>

definition shared_with_email_field ::
    "(string \<Rightarrow> string option) \<Rightarrow> (string \<Rightarrow> string) \<Rightarrow> User list \<Rightarrow> string option \<Rightarrow>
     orm_error + (field_error + string)" where
  "shared_with_email_field EmailField str_lower us data =
     (case data of
        None \<Rightarrow> Inr (Inl Required)
      | Some raw \<Rightarrow>
          (case EmailField raw of
             None \<Rightarrow> Inr (Inl Invalid)
           | Some v \<Rightarrow> validate_shared_with_email str_lower us v))"

definition is_valid ::
    "(string \<Rightarrow> string option) \<Rightarrow> (string \<Rightarrow> string) \<Rightarrow> User list \<Rightarrow> share_request \<Rightarrow>
     orm_error + ((string \<times> field_error) list + string \<times> Permission)" where
  "is_valid EmailField str_lower us data =
     (case shared_with_email_field EmailField str_lower us (req_shared_with_email data) of
        Inl e \<Rightarrow> Inl e
      | Inr r \<Rightarrow>
          (case (r, permission_field (req_permission data)) of
             (Inr v, Inr p) \<Rightarrow> Inr (Inr (v, p))
           | (Inl e, Inr p) \<Rightarrow> Inr (Inl [(''shared_with_email'', e)])
           | (Inr v, Inl e') \<Rightarrow> Inr (Inl [(''permission'', e')])
           | (Inl e, Inl e') \<Rightarrow> Inr (Inl [(''shared_with_email'', e), (''permission'', e')])))"

subsection \<open>The share action\<close>

text \<open>
  \<^verbatim>\<open>TaskShare.objects.update_or_create(task=..., shared_with=..., defaults={'permission': ...})\<close>:
  the row found is saved with the new permission (an update of the row with its primary
  key); when there is none, a row is inserted. The result is the share, the
  \<^verbatim>\<open>created\<close> flag and the new state.
\<close>

definition update_or_create ::
    "database \<Rightarrow> datetime \<Rightarrow> nat \<Rightarrow> nat \<Rightarrow> Permission \<Rightarrow>
     orm_error + TaskShare \<times> bool \<times> database" where
  "update_or_create st now t u p =
     (case objects_get (\<lambda>s. task s = t \<and> shared_with s = u) (task_shares st) of
        Inr s \<Rightarrow>
          (let s' = s\<lparr>permission := p\<rparr>
           in Inr (s', False,
                   st\<lparr>task_shares :=
                        map (\<lambda>x. if share_id x = share_id s then s' else x) (task_shares st)\<rparr>))
      | Inl DoesNotExist \<Rightarrow>
          (let s = \<lparr>share_id = next_share_id st, task = t, shared_with = u,
                    permission = p, shared_at = now\<rparr>
           in Inr (s, True,
                   st\<lparr>task_shares := task_shares st @ [s],
                      next_share_id := Suc (next_share_id st)\<rparr>))
      | Inl MultipleObjectsReturned \<Rightarrow> Inl MultipleObjectsReturned)"

text \<open>
  \<^verbatim>\<open>share\<close> (POST, permission classes IsAuthenticated and CanShareTask). The request's
  user is \<open>None\<close> for an anonymous request. The answer is an error, or the share with the
  status 201 or 200; the second component is the state after the request.
\<close>

definition share ::
    "(string \<Rightarrow> string option) \<Rightarrow> (string \<Rightarrow> string) \<Rightarrow> database \<Rightarrow> datetime \<Rightarrow> nat option \<Rightarrow>
     nat \<Rightarrow> share_request \<Rightarrow> (api_error + TaskShare \<times> nat) \<times> database" where
  "share EmailField str_lower st now request_user pk data =
     (case request_user of
        None \<Rightarrow> (Inl NotAuthenticated, st)
      | Some user \<Rightarrow>
          (case get_object st user pk (CanShareTask_has_object_permission user) of
             Inl e \<Rightarrow> (Inl e, st)
           | Inr t \<Rightarrow>
               (case is_valid EmailField str_lower (users st) data of
                  Inl e \<Rightarrow> (Inl (Server_error e), st)
                | Inr (Inl errors) \<Rightarrow> (Inl (Validation_failed errors), st)
                | Inr (Inr (shared_with_email, perm)) \<Rightarrow>
                    (case objects_get (\<lambda>u. email u = shared_with_email) (users st) of
                       Inl DoesNotExist \<Rightarrow> (Inl User_not_found, st)
                     | Inl MultipleObjectsReturned \<Rightarrow>
                         (Inl (Server_error MultipleObjectsReturned), st)
                     | Inr shared_with_user \<Rightarrow>
                         if user_id shared_with_user = user
                         then (Inl Cannot_share_with_yourself, st)
                         else
                           (case update_or_create st now (task_id t)
                                   (user_id shared_with_user) perm of
                              Inl e \<Rightarrow> (Inl (Server_error e), st)
                            | Inr (s, created, st') \<Rightarrow>
                                (Inr (s, if created then HTTP_201_CREATED else HTTP_200_OK),
                                 st'))))))"

subsection \<open>The other actions on one task\<close>

text \<open>\<^verbatim>\<open>shares\<close> (GET, CanShareTask): the shares of the task (their order is not modelled).\<close>

definition shares :: "database \<Rightarrow> nat option \<Rightarrow> nat \<Rightarrow> api_error + TaskShare list" where
  "shares st request_user pk =
     (case request_user of
        None \<Rightarrow> Inl NotAuthenticated
      | Some user \<Rightarrow>
          (case get_object st user pk (CanShareTask_has_object_permission user) of
             Inl e \<Rightarrow> Inl e
           | Inr t \<Rightarrow> Inr (filter (\<lambda>s. task s = task_id t) (task_shares st))))"

text \<open>\<^verbatim>\<open>revoke_share\<close> (DELETE, CanShareTask): deletes the share of the given user.\<close>

definition revoke_share ::
    "database \<Rightarrow> nat option \<Rightarrow> nat \<Rightarrow> nat \<Rightarrow> (api_error + nat) \<times> database" where
  "revoke_share st request_user pk uid =
     (case request_user of
        None \<Rightarrow> (Inl NotAuthenticated, st)
      | Some user \<Rightarrow>
          (case get_object st user pk (CanShareTask_has_object_permission user) of
             Inl e \<Rightarrow> (Inl e, st)
           | Inr t \<Rightarrow>
               (case objects_get (\<lambda>s. task s = task_id t \<and> shared_with s = uid)
                       (task_shares st) of
                  Inr s \<Rightarrow>
                    (Inr HTTP_204_NO_CONTENT,
                     st\<lparr>task_shares :=
                          filter (\<lambda>x. share_id x \<noteq> share_id s) (task_shares st)\<rparr>)
                | Inl DoesNotExist \<Rightarrow> (Inl Share_not_found, st)
                | Inl MultipleObjectsReturned \<Rightarrow>
                    (Inl (Server_error MultipleObjectsReturned), st))))"

text \<open>
  \<^verbatim>\<open>destroy\<close> (DELETE, IsTaskOwnerOrSharedWith): the view's own owner check follows the
  object permission; deleting the task deletes its shares (\<^verbatim>\<open>on_delete=CASCADE\<close>).
\<close>

definition destroy :: "database \<Rightarrow> nat option \<Rightarrow> nat \<Rightarrow> (api_error + nat) \<times> database" where
  "destroy st request_user pk =
     (case request_user of
        None \<Rightarrow> (Inl NotAuthenticated, st)
      | Some user \<Rightarrow>
          (case get_object st user pk
                  (IsTaskOwnerOrSharedWith_has_object_permission (task_shares st) user DELETE) of
             Inl e \<Rightarrow> (Inl e, st)
           | Inr instance \<Rightarrow>
               if owner instance \<noteq> user then (Inl Only_owner_can_delete, st)
               else (Inr HTTP_204_NO_CONTENT,
                     st\<lparr>tasks := filter (\<lambda>t. task_id t \<noteq> task_id instance) (tasks st),
                        task_shares :=
                          filter (\<lambda>s. task s \<noteq> task_id instance) (task_shares st)\<rparr>)))"

text \<open>
  \<^verbatim>\<open>update\<close> and \<^verbatim>\<open>partial_update\<close> (PUT and PATCH, IsTaskOwnerOrSharedWith). The
  validation of the request data by \<^verbatim>\<open>TaskCreateUpdateSerializer\<close> and the fields it
  saves are the parameter \<open>serializer\<close>: the errors, or the task as saved.
\<close>

definition update ::
    "('d \<Rightarrow> Task \<Rightarrow> (string \<times> field_error) list + Task) \<Rightarrow> database \<Rightarrow> nat option \<Rightarrow>
     http_method \<Rightarrow> nat \<Rightarrow> 'd \<Rightarrow> (api_error + Task) \<times> database" where
  "update serializer st request_user request_method pk data =
     (case request_user of
        None \<Rightarrow> (Inl NotAuthenticated, st)
      | Some user \<Rightarrow>
          (case get_object st user pk
                  (IsTaskOwnerOrSharedWith_has_object_permission (task_shares st) user
                     request_method) of
             Inl e \<Rightarrow> (Inl e, st)
           | Inr instance \<Rightarrow>
               (case serializer data instance of
                  Inl errors \<Rightarrow> (Inl (Validation_failed errors), st)
                | Inr t' \<Rightarrow>
                    (Inr t',
                     st\<lparr>tasks :=
                          map (\<lambda>x. if task_id x = task_id instance then t' else x) (tasks st)\<rparr>))))"

subsection \<open>Reachable states of the share table\<close>

text \<open>
  The states the share table reaches from an empty one by the requests that create, change
  or delete shares: \<^verbatim>\<open>share\<close>, \<^verbatim>\<open>revoke_share\<close> and \<^verbatim>\<open>destroy\<close>, by any user, on
  any task, with any data.
\<close>

inductive reachable :: "database \<Rightarrow> bool" where
  initial: "task_shares st = [] \<Longrightarrow> reachable st"
| after_share:
    "reachable st \<Longrightarrow> reachable (snd (share EmailField str_lower st now request_user pk data))"
| after_revoke_share: "reachable st \<Longrightarrow> reachable (snd (revoke_share st request_user pk uid))"
| after_destroy: "reachable st \<Longrightarrow> reachable (snd (destroy st request_user pk))"

text \<open>\<^verbatim>\<open>unique_together = [['task', 'shared_with']]\<close> and the primary key of the shares.\<close>

definition unique_together :: "TaskShare list \<Rightarrow> bool" where
  "unique_together rows = distinct (map (\<lambda>s. (task s, shared_with s)) rows)"

definition share_ids_fresh :: "database \<Rightarrow> bool" where
  "share_ids_fresh st =
     (distinct (map share_id (task_shares st)) \<and>
      list_all (\<lambda>s. share_id s < next_share_id st) (task_shares st))"

section \<open>Python floats\<close>

text \<open>
  A Python float is an IEEE 754 binary64 number. The result of an arithmetic operation is
  the exact result rounded to the nearest number with a 53-bit significand, ties to the
  even significand. Floats are modelled as the rationals they denote and \<open>fl\<close> is that
  rounding, for results in the normal range (magnitudes from \<open>2^-1022\<close> up to \<open>2^1024\<close>),
  where every value computed below lies.
\<close>

type_synonym pyfloat = rat

definition round_half_even :: "rat \<Rightarrow> int" where
  "round_half_even r =
     (let f = \<lfloor>r\<rfloor>; d = r - of_int f
      in if d < 1 / 2 then f else if 1 / 2 < d then f + 1 else if even f then f else f + 1)"

text \<open>The exponent \<open>e\<close> with \<open>2^e \<le> x < 2^(e+1)\<close>, for positive \<open>x\<close>.\<close>

definition binade :: "rat \<Rightarrow> int" where
  "binade x = (if 1 \<le> x then bitlen \<lfloor>x\<rfloor> - 1 else - bitlen (\<lceil>1 / x\<rceil> - 1))"

definition fl :: "rat \<Rightarrow> pyfloat" where
  "fl x = (if x = 0 then 0
           else let u = 2 powi (binade \<bar>x\<bar> - 52) in of_int (round_half_even (x / u)) * u)"

text \<open>
  \<^verbatim>\<open>timedelta.total_seconds()\<close>: the microseconds divided by \<open>10^6\<close> (a true division of
  two integers, correctly rounded).
\<close>

definition total_seconds :: "timedelta \<Rightarrow> pyfloat" where
  "total_seconds td = fl (of_int td / 10 ^ 6)"

text \<open>\<^verbatim>\<open>a / b\<close> on a float and a non-zero number.\<close>

definition truediv :: "pyfloat \<Rightarrow> rat \<Rightarrow> pyfloat" where
  "truediv a b = fl (a / b)"

text \<open>\<^verbatim>\<open>int(x)\<close> on a float: truncation towards zero.\<close>

definition py_int :: "pyfloat \<Rightarrow> int" where
  "py_int x = (if 0 \<le> x then \<lfloor>x\<rfloor> else \<lceil>x\<rceil>)"

section \<open>Task methods (apps/tasks/models.py)\<close>

text \<open>\<^verbatim>\<open>Task.is_due_soon(hours)\<close>, with \<open>now\<close> the value of \<^verbatim>\<open>timezone.now()\<close>.\<close>

definition is_due_soon :: "datetime \<Rightarrow> Task \<Rightarrow> int \<Rightarrow> bool" where
  "is_due_soon now t hours =
     (case deadline t of
        None \<Rightarrow> False
      | Some d \<Rightarrow>
          if status t \<noteq> DONE
          then (let time_until_deadline = d - now
                in 0 < total_seconds time_until_deadline \<and>
                   total_seconds time_until_deadline \<le> of_int (hours * 3600))
          else False)"

section \<open>Deadline scan (apps/tasks/tasks.py, check_task_deadlines)\<close>

definition timedelta_hours :: "int \<Rightarrow> timedelta" where
  "timedelta_hours h = h * 3600000000"

text \<open>
  \<^verbatim>\<open>dt.replace(hour=h, minute=m, second=s, microsecond=us)\<close>: the date of \<open>dt\<close> with
  the given time of day.
\<close>

definition replace_time :: "datetime \<Rightarrow> int \<Rightarrow> int \<Rightarrow> int \<Rightarrow> int \<Rightarrow> datetime" where
  "replace_time dt h m s us =
     (dt div 86400000000) * 86400000000 + h * 3600000000 + m * 60000000 + s * 1000000 + us"

text \<open>
  The queryset \<^verbatim>\<open>tasks_due_soon\<close>: one \<^verbatim>\<open>filter\<close> and two \<^verbatim>\<open>exclude\<close>
  calls, in the order of the source. A comparison with a null deadline selects nothing.
\<close>

definition in_window :: "datetime \<Rightarrow> datetime \<Rightarrow> Task \<Rightarrow> bool" where
  "in_window now twenty_four_hours_later t =
     (case deadline t of None \<Rightarrow> False
      | Some d \<Rightarrow> d > now \<and> d \<le> twenty_four_hours_later)"

definition created_and_due_today :: "datetime \<Rightarrow> datetime \<Rightarrow> Task \<Rightarrow> bool" where
  "created_and_due_today today_start today_end t =
     (created_at t \<ge> today_start \<and> created_at t \<le> today_end \<and>
      (case deadline t of None \<Rightarrow> False
       | Some d \<Rightarrow> d \<ge> today_start \<and> d \<le> today_end))"

definition tasks_due_soon :: "datetime \<Rightarrow> Task list \<Rightarrow> Task list" where
  "tasks_due_soon now ts =
     (let twenty_four_hours_later = now + timedelta_hours 24;
          today_start = replace_time now 0 0 0 0;
          today_end = replace_time now 23 59 59 999999
      in filter (\<lambda>t. status t \<noteq> DONE)
           (filter (\<lambda>t. \<not> created_and_due_today today_start today_end t)
              (filter (in_window now twenty_four_hours_later) ts)))"

text \<open>
  The hours reported in the reminder of a task with deadline \<open>d\<close>:
  \<^verbatim>\<open>int(time_remaining.total_seconds() / 3600)\<close>.
\<close>

definition hours_remaining :: "datetime \<Rightarrow> datetime \<Rightarrow> int" where
  "hours_remaining now d =
     (let time_remaining = d - now
      in py_int (truediv (total_seconds time_remaining) 3600))"

subsection \<open>The candidate set as the specification words it\<close>

text \<open>The calendar day (UTC) an instant falls in.\<close>

definition calendar_day :: "datetime \<Rightarrow> int" where
  "calendar_day dt = dt div 86400000000"

definition is_candidate :: "datetime \<Rightarrow> Task \<Rightarrow> bool" where
  "is_candidate now t =
     (case deadline t of
        None \<Rightarrow> False
      | Some d \<Rightarrow>
          now < d \<and> d \<le> now + 24 * 3600000000 \<and> status t \<noteq> DONE \<and>
          \<not> (calendar_day (created_at t) = calendar_day now \<and>
             calendar_day d = calendar_day now))"

text \<open>Due soon, on the exact difference of the two instants (in microseconds).\<close>

definition due_within :: "datetime \<Rightarrow> Task \<Rightarrow> int \<Rightarrow> bool" where
  "due_within now t hours =
     (case deadline t of
        None \<Rightarrow> False
      | Some d \<Rightarrow> status t \<noteq> DONE \<and> 0 < d - now \<and> d - now \<le> hours * 3600 * 1000000)"

text \<open>The deadline, when there is one, is less than \<open>2^34\<close> seconds (about 544 years) after \<open>now\<close>.\<close>

definition deadline_near :: "datetime \<Rightarrow> Task \<Rightarrow> bool" where
  "deadline_near now t =
     (case deadline t of None \<Rightarrow> True | Some d \<Rightarrow> d - now < 17179869184000000)"

section \<open>Invariant and outcomes named in the properties\<close>

definition share_table_ok :: "database \<Rightarrow> bool" where
  "share_table_ok st = (unique_together (task_shares st) \<and> share_ids_fresh st)"

text \<open>The primary keys of tasks and users and \<^verbatim>\<open>unique=True\<close> on the email.\<close>

definition keys_ok :: "database \<Rightarrow> bool" where
  "keys_ok st =
     (distinct (map task_id (tasks st)) \<and> distinct (map user_id (users st)) \<and>
      distinct (map email (users st)))"


section \<open>An example state\<close>

text \<open>
  The two parameters of the share action, for the examples. On ASCII text
  \<^verbatim>\<open>str.lower()\<close> turns the letters A to Z into a to z and leaves every other character.
  The email validator of the framework refuses, among others, every text without an @ sign;
  the examples use addresses that it accepts, and one text without an @ sign.
\<close>

definition ascii_lower_char :: "char \<Rightarrow> char" where
  "ascii_lower_char c =
     (let n = (of_char c :: nat) in if 65 \<le> n \<and> n \<le> 90 then char_of (n + 32) else c)"

definition ascii_lower :: "string \<Rightarrow> string" where
  "ascii_lower s = map ascii_lower_char s"


definition alice :: User where
  "alice = \<lparr>user_id = 1, email = ''alice@example.com''\<rparr>"

definition bob :: User where
  "bob = \<lparr>user_id = 2, email = ''bob@example.com''\<rparr>"

definition carol :: User where
  "carol = \<lparr>user_id = 3, email = ''carol@example.com''\<rparr>"

definition report :: Task where
  "report = \<lparr>task_id = 1, title = ''report'', description = None, status = NEW,
             priority = MEDIUM, deadline = None, owner = 1, created_at = 0, updated_at = 0\<rparr>"

definition memo :: Task where
  "memo = \<lparr>task_id = 2, title = ''memo'', description = None, status = NEW,
            priority = LOW, deadline = None, owner = 2, created_at = 0, updated_at = 0\<rparr>"

definition example_db :: database where
  "example_db = \<lparr>users = [alice, bob, carol], tasks = [report, memo], task_shares = [],
                 next_share_id = 1\<rparr>"

definition bob_share :: "Permission \<Rightarrow> TaskShare" where
  "bob_share p = \<lparr>share_id = 1, task = 1, shared_with = 2, permission = p, shared_at = 10\<rparr>"

definition carol_share :: TaskShare where
  "carol_share = \<lparr>share_id = 2, task = 1, shared_with = 3, permission = VIEW, shared_at = 20\<rparr>"

definition share_with :: "string \<Rightarrow> Permission \<Rightarrow> share_request" where
  "share_with e p = \<lparr>req_shared_with_email = Some e, req_permission = Some (choice_value p)\<rparr>"

section \<open>Rounding to a float\<close>

lemma round_half_even_ge: "of_int n \<le> r \<Longrightarrow> n \<le> round_half_even r"
  unfolding round_half_even_def Let_def
  by (auto simp: le_floor_iff) (smt (verit) le_floor_iff)+

lemma round_half_even_le: "r \<le> of_int n \<Longrightarrow> round_half_even r \<le> n"
  unfolding round_half_even_def Let_def
  by (auto simp: floor_le_iff)

lemma binade_ge1:
  assumes "1 \<le> x"
  shows "2 powi binade x \<le> x \<and> x < 2 powi (binade x + 1)"
proof -
  define n where "n = \<lfloor>x\<rfloor>"
  have n1: "1 \<le> n" using assms by (simp add: n_def le_floor_iff)
  then have b: "2 ^ nat (bitlen n - 1) \<le> n" "n < 2 ^ nat (bitlen n)"
    using bitlen_bounds [of n] by auto
  have k1: "1 \<le> bitlen n" using n1 bitlen_ge_iff_power[of 1 n] by simp
  have e: "binade x = bitlen n - 1" using assms by (simp add: binade_def n_def)
  have "(2::rat) powi binade x = 2 ^ nat (bitlen n - 1)"
    using k1 by (simp add: e power_int_def)
  also have "\<dots> = of_int (2 ^ nat (bitlen n - 1))" by simp
  also have "\<dots> \<le> of_int n" using b(1) by (simp only: of_int_le_iff)
  also have "\<dots> \<le> x" by (simp add: n_def)
  finally have lo: "2 powi binade x \<le> x" .
  have "n + 1 \<le> 2 ^ nat (bitlen n)" using b(2) by simp
  then have "(of_int (n + 1) :: rat) \<le> of_int (2 ^ nat (bitlen n))" by (simp only: of_int_le_iff)
  moreover have "x < of_int (n + 1)" unfolding n_def using floor_correct [of x] by simp
  moreover have "(2::rat) powi (binade x + 1) = 2 ^ nat (bitlen n)"
    using k1 by (simp add: e power_int_def)
  ultimately have hi: "x < 2 powi (binade x + 1)" by simp
  show ?thesis using lo hi by simp
qed

lemma binade_lt1:
  assumes "0 < x" "x < 1"
  shows "2 powi binade x \<le> x \<and> x < 2 powi (binade x + 1)"
proof -
  define m where "m = \<lceil>1 / x\<rceil> - 1"
  have y1: "1 < 1 / x" using assms by simp
  have m1: "1 \<le> m" using y1 unfolding m_def by (simp add: less_ceiling_iff)
  then have b: "2 ^ nat (bitlen m - 1) \<le> m" "m < 2 ^ nat (bitlen m)"
    using bitlen_bounds [of m] by auto
  have k1: "1 \<le> bitlen m" using m1 bitlen_ge_iff_power[of 1 m] by simp
  have e: "binade x = - bitlen m" using assms by (simp add: binade_def m_def)
  have "1 / x \<le> of_int (m + 1)" by (simp add: m_def)
  also have "(of_int (m + 1) :: rat) \<le> of_int (2 ^ nat (bitlen m))"
    using b(2) by (simp only: of_int_le_iff)
  finally have "1 / x \<le> 2 ^ nat (bitlen m)" by simp
  then have "1 \<le> 2 ^ nat (bitlen m) * x" using assms(1) by (simp add: field_simps)
  then have "1 / 2 ^ nat (bitlen m) \<le> x" by (simp add: field_simps)
  moreover have "(2::rat) powi binade x = 1 / 2 ^ nat (bitlen m)"
    using k1 by (simp add: e power_int_def field_simps)
  ultimately have lo: "2 powi binade x \<le> x" by simp
  have "(of_int (2 ^ nat (bitlen m - 1)) :: rat) \<le> of_int m" using b(1) by (simp only: of_int_le_iff)
  then have "(2::rat) ^ nat (bitlen m - 1) \<le> of_int m" by simp
  also have "of_int m < 1 / x" unfolding m_def using ceiling_correct [of "1 / x"] by simp
  finally have "2 ^ nat (bitlen m - 1) < 1 / x" .
  then have "2 ^ nat (bitlen m - 1) * x < 1" using assms(1) by (simp add: field_simps)
  then have "x < 1 / 2 ^ nat (bitlen m - 1)" by (simp add: field_simps)
  moreover have "(2::rat) powi (binade x + 1) = 1 / 2 ^ nat (bitlen m - 1)"
  proof -
    have "binade x + 1 = - (bitlen m - 1)" by (simp add: e)
    then have "(2::rat) powi (binade x + 1) = inverse (2 powi (bitlen m - 1))"
      by (simp only: power_int_minus)
    also have "(2::rat) powi (bitlen m - 1) = 2 ^ nat (bitlen m - 1)"
      using k1 by (simp add: power_int_def)
    finally show ?thesis by (simp add: field_simps)
  qed
  ultimately have hi: "x < 2 powi (binade x + 1)" by simp
  show ?thesis using lo hi by simp
qed

lemma binade_bounds:
  "0 < x \<Longrightarrow> 2 powi binade x \<le> x \<and> x < 2 powi (binade x + 1)"
  using binade_ge1 [of x] binade_lt1 [of x] by (cases "1 \<le> x") auto

lemma two_powi_less_imp: "(2::rat) powi a < 2 powi b \<Longrightarrow> a < b"
proof (rule ccontr)
  assume l: "(2::rat) powi a < 2 powi b" and "\<not> a < b"
  then have "b \<le> a" by simp
  then have "(2::rat) powi b \<le> 2 powi a" by (rule power_int_increasing) simp
  with l show False by simp
qed

text \<open>
  A number \<open>m * 2^j\<close> with \<open>0 < m < 2^53\<close> is a float. When it lies at or above the lower end of
  the binade \<open>e\<close>, it is a multiple of the unit \<open>2^(e - 52)\<close> of that binade.
\<close>

lemma on_grid:
  assumes m: "0 < m" "m < 2 ^ 53"
    and lo: "(2::rat) powi e \<le> of_int m * 2 powi j"
  shows "of_int m * (2::rat) powi j / 2 powi (e - 52) = of_int (m * 2 ^ nat (j - e + 52))"
proof -
  have "of_int m < (2::rat) ^ 53" using m(2) by (metis of_int_less_iff of_int_numeral of_int_power)
  then have "of_int m * (2::rat) powi j < 2 ^ 53 * 2 powi j"
    by (simp add: mult_strict_right_mono)
  also have "\<dots> = 2 powi (53 + j)" by (simp add: power_int_add)
  finally have "(2::rat) powi e < 2 powi (53 + j)" using lo by simp
  then have d: "0 \<le> j - e + 52" using two_powi_less_imp [of e "53 + j"] by simp
  have "(2::rat) powi j / 2 powi (e - 52) = 2 powi (j - (e - 52))"
    by (rule power_int_diff [symmetric]) simp
  also have "\<dots> = 2 ^ nat (j - e + 52)" using d by (simp add: power_int_def algebra_simps)
  finally have q: "(2::rat) powi j / 2 powi (e - 52) = 2 ^ nat (j - e + 52)" .
  have "of_int m * (2::rat) powi j / 2 powi (e - 52) = of_int m * (2 powi j / 2 powi (e - 52))"
    by (rule times_divide_eq_right [symmetric])
  also have "\<dots> = of_int m * 2 ^ nat (j - e + 52)" by (simp only: q)
  finally show ?thesis by simp
qed

lemma fl_unfold:
  "0 < x \<Longrightarrow> fl x = of_int (round_half_even (x / 2 powi (binade x - 52))) * 2 powi (binade x - 52)"
  by (simp add: fl_def Let_def)

text \<open>Rounding never crosses a float: a float below \<open>x\<close> stays below the rounded \<open>x\<close>.\<close>

lemma fl_ge:
  assumes m: "0 < m" "m < 2 ^ 53" and rx: "of_int m * 2 powi j \<le> x"
  shows "of_int m * 2 powi j \<le> fl x"
proof -
  define r :: rat where "r = of_int m * 2 powi j"
  define e where "e = binade x"
  define u :: rat where "u = 2 powi (e - 52)"
  have r0: "0 < r" using m(1) by (simp add: r_def)
  then have x0: "0 < x" using rx by (simp add: r_def)
  have u0: "0 < u" by (simp add: u_def)
  have b: "2 powi e \<le> x" "x < 2 powi (e + 1)" using binade_bounds [OF x0] by (simp_all add: e_def)
  have f: "fl x = of_int (round_half_even (x / u)) * u"
    using fl_unfold [OF x0] by (simp add: e_def u_def)
  show ?thesis
  proof (cases "2 powi e \<le> r")
    case True
    then have g: "r / u = of_int (m * 2 ^ nat (j - e + 52))"
      unfolding r_def u_def using on_grid [OF m] by simp
    have "r / u \<le> x / u" using rx u0 by (simp add: r_def divide_right_mono)
    then have "m * 2 ^ nat (j - e + 52) \<le> round_half_even (x / u)"
      unfolding g by (rule round_half_even_ge)
    then have "(of_int (m * 2 ^ nat (j - e + 52)) :: rat) \<le> of_int (round_half_even (x / u))"
      by (simp only: of_int_le_iff)
    then have "r / u * u \<le> of_int (round_half_even (x / u)) * u"
      unfolding g using u0 by (simp only: mult_le_cancel_right_pos)
    then show ?thesis using u0 by (simp add: f r_def)
  next
    case False
    have "(2::rat) powi e / u = 2 powi (e - (e - 52))"
      unfolding u_def by (rule power_int_diff [symmetric]) simp
    also have "e - (e - 52) = 52" by simp
    finally have g: "(2::rat) powi e / u = of_int (2 ^ 52)" by simp
    have "2 powi e / u \<le> x / u" using b(1) u0 by (simp add: divide_right_mono)
    then have "2 ^ 52 \<le> round_half_even (x / u)"
      unfolding g by (rule round_half_even_ge)
    then have "(of_int (2 ^ 52) :: rat) \<le> of_int (round_half_even (x / u))"
      by (simp only: of_int_le_iff)
    then have "2 powi e / u * u \<le> of_int (round_half_even (x / u)) * u"
      unfolding g using u0 by (simp only: mult_le_cancel_right_pos)
    then have "2 powi e \<le> fl x" using u0 by (simp add: f)
    then show ?thesis using False by (simp add: r_def)
  qed
qed

lemma fl_le:
  assumes x0: "0 < x" and m: "0 < m" "m < 2 ^ 53" and rx: "x \<le> of_int m * 2 powi j"
  shows "fl x \<le> of_int m * 2 powi j"
proof -
  define r :: rat where "r = of_int m * 2 powi j"
  define e where "e = binade x"
  define u :: rat where "u = 2 powi (e - 52)"
  have u0: "0 < u" by (simp add: u_def)
  have b: "2 powi e \<le> x" "x < 2 powi (e + 1)" using binade_bounds [OF x0] by (simp_all add: e_def)
  have f: "fl x = of_int (round_half_even (x / u)) * u"
    using fl_unfold [OF x0] by (simp add: e_def u_def)
  show ?thesis
  proof (cases "r < 2 powi (e + 1)")
    case True
    have "2 powi e \<le> r" using b(1) rx by (simp add: r_def)
    then have g: "r / u = of_int (m * 2 ^ nat (j - e + 52))"
      unfolding r_def u_def using on_grid [OF m] by simp
    have "x / u \<le> r / u" using rx u0 by (simp add: r_def divide_right_mono)
    then have "round_half_even (x / u) \<le> m * 2 ^ nat (j - e + 52)"
      unfolding g by (rule round_half_even_le)
    then have "(of_int (round_half_even (x / u)) :: rat) \<le> of_int (m * 2 ^ nat (j - e + 52))"
      by (simp only: of_int_le_iff)
    then have "of_int (round_half_even (x / u)) * u \<le> r / u * u"
      unfolding g using u0 by (simp only: mult_le_cancel_right_pos)
    then show ?thesis using u0 by (simp add: f r_def)
  next
    case False
    have "(2::rat) powi (e + 1) / u = 2 powi (e + 1 - (e - 52))"
      unfolding u_def by (rule power_int_diff [symmetric]) simp
    also have "e + 1 - (e - 52) = 53" by simp
    finally have g: "(2::rat) powi (e + 1) / u = of_int (2 ^ 53)" by simp
    have "x / u \<le> 2 powi (e + 1) / u" using b(2) u0 by (simp add: divide_right_mono)
    then have "round_half_even (x / u) \<le> 2 ^ 53"
      unfolding g by (rule round_half_even_le)
    then have "(of_int (round_half_even (x / u)) :: rat) \<le> of_int (2 ^ 53)"
      by (simp only: of_int_le_iff)
    then have "of_int (round_half_even (x / u)) * u \<le> 2 powi (e + 1) / u * u"
      unfolding g using u0 by (simp only: mult_le_cancel_right_pos)
    then have "fl x \<le> 2 powi (e + 1)" using u0 by (simp add: f)
    then show ?thesis using False by (simp add: r_def)
  qed
qed

lemma fl_nonpos: "x \<le> 0 \<Longrightarrow> fl x \<le> 0"
proof -
  assume x: "x \<le> 0"
  have "x / 2 powi (binade \<bar>x\<bar> - 52) \<le> of_int 0"
    using x by (simp add: divide_le_0_iff)
  then have "round_half_even (x / 2 powi (binade \<bar>x\<bar> - 52)) \<le> 0"
    by (rule round_half_even_le)
  then show ?thesis by (simp add: fl_def Let_def mult_le_0_iff)
qed

lemma fl_nonneg: "0 \<le> x \<Longrightarrow> 0 \<le> fl x"
proof -
  assume x: "0 \<le> x"
  have "of_int 0 \<le> x / 2 powi (binade \<bar>x\<bar> - 52)"
    using x by (simp add: zero_le_divide_iff)
  then have "0 \<le> round_half_even (x / 2 powi (binade \<bar>x\<bar> - 52))"
    by (rule round_half_even_ge)
  then show ?thesis by (simp add: fl_def Let_def zero_le_mult_iff)
qed

lemma p20: "(2::rat) powi (- 20) = 1 / 1048576"
  by (simp add: power_int_def power_one_over)

lemma p32: "(2::rat) powi (- 32) = 1 / 4294967296"
  by (simp add: power_int_def power_one_over)

section \<open>Seconds of a time difference\<close>

lemma total_seconds_pos:
  assumes "0 < td"
  shows "1 / 1048576 \<le> total_seconds td"
proof -
  have "(1::rat) / 1048576 \<le> of_int 1 / 10 ^ 6" by simp
  also have "\<dots> \<le> of_int td / 10 ^ 6"
  proof -
    have "1 \<le> td" using assms by simp
    then have "(of_int 1 :: rat) \<le> of_int td" by (simp only: of_int_le_iff)
    then show ?thesis by (rule divide_right_mono) simp
  qed
  finally have "of_int 1 * 2 powi (- 20) \<le> (of_int td :: rat) / 10 ^ 6" by (simp add: p20)
  then have "of_int 1 * 2 powi (- 20) \<le> fl (of_int td / 10 ^ 6)"
    by (rule fl_ge [rotated 2]) simp_all
  then show ?thesis by (simp add: total_seconds_def p20)
qed

lemma total_seconds_ge:
  assumes "0 < n" "n < 2 ^ 53" "n * 1000000 \<le> td"
  shows "of_int n \<le> total_seconds td"
proof -
  have "(of_int (n * 1000000) :: rat) \<le> of_int td" using assms(3) by (simp only: of_int_le_iff)
  then have "of_int n * 2 powi 0 \<le> (of_int td :: rat) / 10 ^ 6" by (simp add: field_simps)
  then have "of_int n * 2 powi 0 \<le> fl (of_int td / 10 ^ 6)"
    using assms(1,2) by (rule fl_ge [rotated 2])
  then show ?thesis by (simp add: total_seconds_def)
qed

lemma total_seconds_le:
  assumes "0 < td" "0 < n" "n < 2 ^ 53" "td \<le> n * 1000000"
  shows "total_seconds td \<le> of_int n"
proof -
  have "(of_int td :: rat) \<le> of_int (n * 1000000)" using assms(4) by (simp only: of_int_le_iff)
  then have "(of_int td :: rat) / 10 ^ 6 \<le> of_int n * 2 powi 0" by (simp add: field_simps)
  moreover have "0 < (of_int td :: rat) / 10 ^ 6" using assms(1) by simp
  ultimately have "fl (of_int td / 10 ^ 6) \<le> of_int n * 2 powi 0"
    using assms(2,3) by (intro fl_le)
  then show ?thesis by (simp add: total_seconds_def)
qed

text \<open>
  For a difference of at most 24 hours, the two rounded divisions and the truncation give
  the whole hours of the exact difference.
\<close>

lemma hours_floor:
  assumes td: "0 < td" "td \<le> 86400000000"
  shows "py_int (truediv (total_seconds td) 3600) = td div 3600000000"
proof -
  define k where "k = td div 3600000000"
  define s where "s = total_seconds td"
  define q where "q = truediv s 3600"
  have k: "0 \<le> k" "k \<le> 24" "k * 3600000000 \<le> td" "td < (k + 1) * 3600000000"
    using td unfolding k_def by simp_all
  have s0: "1 / 1048576 \<le> s" unfolding s_def using td(1) by (rule total_seconds_pos)
  have s_lo: "of_int (3600 * k) \<le> s"
  proof (cases "k = 0")
    case True
    then show ?thesis using s0 by simp
  next
    case False
    then have "0 < 3600 * k" "3600 * k < 2 ^ 53" "3600 * k * 1000000 \<le> td"
      using k by simp_all
    then show ?thesis unfolding s_def by (rule total_seconds_ge)
  qed
  have s_hi: "s \<le> of_int (3600 * (k + 1)) - 1 / 1048576"
  proof -
    define m where "m = 3600 * (k + 1) * 1048576 - 1"
    have m: "0 < m" "m < 2 ^ 53" using k by (simp_all add: m_def)
    have r: "of_int m * (2::rat) powi (- 20) = of_int (3600 * (k + 1)) - 1 / 1048576"
      by (simp add: m_def p20 field_simps)
    have "td \<le> 3600 * (k + 1) * 1000000 - 1" using k(4) by simp
    then have "(of_int td :: rat) \<le> of_int (3600 * (k + 1) * 1000000 - 1)"
      by (simp only: of_int_le_iff)
    then have "(of_int td :: rat) / 10 ^ 6 \<le> of_int (3600 * (k + 1)) - 1 / 10 ^ 6"
      by (simp add: field_simps)
    also have "\<dots> \<le> of_int (3600 * (k + 1)) - 1 / 1048576" by simp
    finally have "(of_int td :: rat) / 10 ^ 6 \<le> of_int m * 2 powi (- 20)" by (simp only: r)
    moreover have "0 < (of_int td :: rat) / 10 ^ 6" using td(1) by simp
    ultimately have "fl (of_int td / 10 ^ 6) \<le> of_int m * 2 powi (- 20)"
      using m by (intro fl_le)
    then show ?thesis by (simp only: r s_def total_seconds_def)
  qed
  have q_lo: "of_int k \<le> q"
  proof (cases "k = 0")
    case True
    have "0 \<le> s / 3600" using s0 by simp
    then have "0 \<le> fl (s / 3600)" by (rule fl_nonneg)
    then show ?thesis using True by (simp add: q_def truediv_def)
  next
    case False
    then have m: "0 < k" "k < 2 ^ 53" using k by simp_all
    have "of_int k * (2::rat) powi 0 \<le> s / 3600" using s_lo by (simp add: field_simps)
    then have "of_int k * 2 powi 0 \<le> fl (s / 3600)" using m by (intro fl_ge)
    then show ?thesis by (simp add: q_def truediv_def)
  qed
  have q_hi: "q \<le> of_int (k + 1) - 1 / 4294967296"
  proof -
    define m where "m = (k + 1) * 4294967296 - 1"
    have m: "0 < m" "m < 2 ^ 53" using k by (simp_all add: m_def)
    have r: "of_int m * (2::rat) powi (- 32) = of_int (k + 1) - 1 / 4294967296"
      by (simp add: m_def p32 field_simps)
    have "s / 3600 \<le> (of_int (3600 * (k + 1)) - 1 / 1048576) / 3600"
      using s_hi by (simp add: divide_right_mono)
    also have "\<dots> \<le> of_int (k + 1) - 1 / 4294967296" by (simp add: field_simps)
    finally have "s / 3600 \<le> of_int m * 2 powi (- 32)" by (simp only: r)
    moreover have "0 < s / 3600" using s0 by simp
    ultimately have "fl (s / 3600) \<le> of_int m * 2 powi (- 32)"
      using m by (intro fl_le)
    then show ?thesis by (simp only: r q_def truediv_def)
  qed
  have "0 \<le> q" using q_lo k(1) by (meson of_int_0_le_iff order_trans)
  moreover have "\<lfloor>q\<rfloor> = k"
  proof (rule floor_unique)
    show "of_int k \<le> q" by (rule q_lo)
    show "q < of_int k + 1" using q_hi by simp
  qed
  ultimately show ?thesis by (simp add: py_int_def q_def s_def k_def)
qed

text \<open>
  For a difference below \<open>2^33\<close> seconds, the comparisons on the rounded seconds agree with
  the comparisons on the exact difference.
\<close>

lemma due_soon_exact:
  assumes far: "td < 8589934592000000"
  shows "(0 < total_seconds td \<and> total_seconds td \<le> of_int (hours * 3600)) \<longleftrightarrow>
         (0 < td \<and> td \<le> hours * 3600 * 1000000)"
proof (cases "0 < td")
  case False
  then have "(of_int td :: rat) / 10 ^ 6 \<le> 0" by (simp add: divide_le_0_iff)
  then have "total_seconds td \<le> 0" unfolding total_seconds_def by (rule fl_nonpos)
  then show ?thesis using False by simp
next
  case True
  have s0: "0 < total_seconds td" using total_seconds_pos [OF True] by simp
  show ?thesis
  proof (cases "td \<le> hours * 3600 * 1000000")
    case le: True
    have h0: "0 < hours * 3600" using True le by simp
    have "total_seconds td \<le> of_int (hours * 3600)"
    proof (cases "hours * 3600 < 2 ^ 53")
      case True
      with h0 le \<open>0 < td\<close> show ?thesis by (intro total_seconds_le) simp_all
    next
      case False
      have "total_seconds td \<le> of_int 8589934592"
        using \<open>0 < td\<close> far by (intro total_seconds_le) simp_all
      also have "(of_int 8589934592 :: rat) \<le> of_int (hours * 3600)"
        using False by (simp only: of_int_le_iff) simp
      finally show ?thesis .
    qed
    then show ?thesis using s0 True le by simp
  next
    case gt: False
    have "\<not> total_seconds td \<le> of_int (hours * 3600)"
    proof (cases "0 < hours")
      case False
      then have "(of_int (hours * 3600) :: rat) \<le> 0"
        by (simp add: mult_le_0_iff)
      then show ?thesis using s0 by simp
    next
      case True
      define m where "m = hours * 3600 * 1048576 + 1"
      have m: "0 < m" "m < 2 ^ 53" using True gt far by (simp_all add: m_def)
      have r: "of_int m * (2::rat) powi (- 20) = of_int (hours * 3600) + 1 / 1048576"
        by (simp add: m_def p20 field_simps)
      have "hours * 3600 * 1000000 + 1 \<le> td" using gt by simp
      then have "(of_int (hours * 3600 * 1000000 + 1) :: rat) \<le> of_int td"
        by (simp only: of_int_le_iff)
      then have "of_int (hours * 3600) + 1 / 10 ^ 6 \<le> (of_int td :: rat) / 10 ^ 6"
        by (simp add: field_simps)
      then have "of_int (hours * 3600) + 1 / 1048576 \<le> (of_int td :: rat) / 10 ^ 6"
        by simp
      then have "of_int m * 2 powi (- 20) \<le> (of_int td :: rat) / 10 ^ 6" by (simp only: r)
      then have "of_int m * 2 powi (- 20) \<le> fl (of_int td / 10 ^ 6)"
        using m by (intro fl_ge)
      then have "of_int (hours * 3600) + 1 / 1048576 \<le> total_seconds td"
        by (simp only: r total_seconds_def)
      then show ?thesis by simp
    qed
    then show ?thesis using gt by simp
  qed
qed

lemma round_half_even_above_half:
  assumes "of_int n + 1 / 2 < r"
  shows "n + 1 \<le> round_half_even r"
proof -
  have f: "n \<le> \<lfloor>r\<rfloor>" using assms by (simp add: le_floor_iff)
  show ?thesis
  proof (cases "n = \<lfloor>r\<rfloor>")
    case True
    then have "1 / 2 < r - of_int \<lfloor>r\<rfloor>" using assms by simp
    then show ?thesis using True by (simp add: round_half_even_def Let_def)
  next
    case False
    then have "n + 1 \<le> \<lfloor>r\<rfloor>" using f by simp
    moreover have "\<lfloor>r\<rfloor> \<le> round_half_even r"
      by (rule round_half_even_ge) simp
    ultimately show ?thesis by simp
  qed
qed

lemma binade_unique:
  assumes "2 powi e \<le> x" "x < 2 powi (e + 1)"
  shows "binade x = e"
proof -
  have "0 < (2::rat) powi e" by simp
  also have "\<dots> \<le> x" by (rule assms(1))
  finally have x0: "0 < x" .
  have b: "2 powi binade x \<le> x" "x < 2 powi (binade x + 1)"
    using binade_bounds [OF x0] by simp_all
  have "(2::rat) powi e < 2 powi (binade x + 1)" using assms(1) b(2) by simp
  then have 1: "e < binade x + 1" by (rule two_powi_less_imp)
  have "(2::rat) powi binade x < 2 powi (e + 1)" using assms(2) b(1) by simp
  then have 2: "binade x < e + 1" by (rule two_powi_less_imp)
  show ?thesis using 1 2 by simp
qed

lemma total_seconds_binade_33:
  assumes lo: "8589934592000000 \<le> td" and hi: "td < 17179869184000000"
    and n: "n * 1000000 < td"
  shows "of_int n < total_seconds td"
proof -
  define x :: rat where "x = of_int td / 10 ^ 6"
  have "(of_int 8589934592000000 :: rat) \<le> of_int td" using lo by (simp only: of_int_le_iff)
  then have x1: "2 powi 33 \<le> x" by (simp add: x_def field_simps)
  have "(of_int td :: rat) < of_int 17179869184000000" using hi by (simp only: of_int_less_iff)
  then have x2: "x < 2 powi (33 + 1)" by (simp add: x_def field_simps)
  have e: "binade x = 33" using x1 x2 by (rule binade_unique)
  have x0: "0 < x" using x1 by simp
  have u: "(2::rat) powi (33 - 52) = 1 / 524288" by (simp add: power_int_def power_one_over)
  have f: "fl x = of_int (round_half_even (x * 524288)) / 524288"
    using fl_unfold [OF x0] by (simp add: e u)
  have "n * 1000000 + 1 \<le> td" using n by simp
  then have "(of_int (n * 1000000 + 1) :: rat) \<le> of_int td" by (simp only: of_int_le_iff)
  then have "of_int n + 1 / 10 ^ 6 \<le> x" by (simp add: x_def field_simps)
  then have "(of_int n + 1 / 10 ^ 6) * 524288 \<le> x * 524288" by simp
  moreover have "of_int (n * 524288) + 1 / 2 < (of_int n + 1 / 10 ^ 6) * (524288 :: rat)"
    by (simp add: field_simps)
  ultimately have "of_int (n * 524288) + 1 / 2 < x * 524288" by simp
  then have "n * 524288 + 1 \<le> round_half_even (x * 524288)"
    by (rule round_half_even_above_half)
  then have "(of_int (n * 524288 + 1) :: rat) \<le> of_int (round_half_even (x * 524288))"
    by (simp only: of_int_le_iff)
  then have "(of_int (n * 524288 + 1) :: rat) / 524288 \<le> fl x"
    unfolding f by (simp add: divide_right_mono)
  moreover have "of_int n < (of_int (n * 524288 + 1) :: rat) / 524288"
    by (simp add: field_simps)
  ultimately show ?thesis by (simp add: total_seconds_def x_def)
qed

text \<open>
  The same up to \<open>2^34\<close> seconds: between \<open>2^33\<close> and \<open>2^34\<close> seconds a float is a multiple
  of \<open>2^-19\<close>, and one microsecond more than a whole number of seconds is rounded up.
\<close>

lemma due_soon_exact_34:
  assumes far: "td < 17179869184000000"
  shows "(0 < total_seconds td \<and> total_seconds td \<le> of_int (hours * 3600)) \<longleftrightarrow>
         (0 < td \<and> td \<le> hours * 3600 * 1000000)"
proof (cases "td < 8589934592000000")
  case True
  then show ?thesis by (rule due_soon_exact)
next
  case False
  then have lo: "8589934592000000 \<le> td" by simp
  then have td0: "0 < td" by simp
  have s0: "0 < total_seconds td" using total_seconds_pos [OF td0] by simp
  show ?thesis
  proof (cases "td \<le> hours * 3600 * 1000000")
    case le: True
    have h0: "0 < hours * 3600" using td0 le by simp
    have "total_seconds td \<le> of_int (hours * 3600)"
    proof (cases "hours * 3600 < 2 ^ 53")
      case True
      with h0 le td0 show ?thesis by (intro total_seconds_le) simp_all
    next
      case False
      have "total_seconds td \<le> of_int 17179869184"
        using td0 far by (intro total_seconds_le) simp_all
      also have "(of_int 17179869184 :: rat) \<le> of_int (hours * 3600)"
        using False by (simp only: of_int_le_iff) simp
      finally show ?thesis .
    qed
    then show ?thesis using s0 td0 le by simp
  next
    case gt: False
    then have "hours * 3600 * 1000000 < td" by simp
    with lo far have "of_int (hours * 3600) < total_seconds td"
      by (rule total_seconds_binade_33)
    then show ?thesis using gt by simp
  qed
qed

text \<open>
  A difference of 5000000 hours and one microsecond: its seconds round to the whole
  5000000 hours.
\<close>

lemma total_seconds_far: "total_seconds 18000000000000001 = 18000000000"
  unfolding total_seconds_def by code_simp

section \<open>The candidate set of the deadline scan\<close>

lemma within_today_iff:
  "(replace_time now 0 0 0 0 \<le> x \<and> x \<le> replace_time now 23 59 59 999999) \<longleftrightarrow>
   calendar_day x = calendar_day now"
  unfolding replace_time_def calendar_day_def by auto

lemma tasks_due_soon_member:
  "in_window now (now + timedelta_hours 24) t \<and>
   \<not> created_and_due_today (replace_time now 0 0 0 0) (replace_time now 23 59 59 999999) t \<and>
   status t \<noteq> DONE \<longleftrightarrow> is_candidate now t"
proof (cases "deadline t")
  case None
  then show ?thesis
    by (simp add: in_window_def is_candidate_def)
next
  case (Some d)
  have c: "(replace_time now 0 0 0 0 \<le> created_at t \<and>
            created_at t \<le> replace_time now 23 59 59 999999) \<longleftrightarrow>
           calendar_day (created_at t) = calendar_day now"
    by (rule within_today_iff)
  have d: "(replace_time now 0 0 0 0 \<le> d \<and> d \<le> replace_time now 23 59 59 999999) \<longleftrightarrow>
           calendar_day d = calendar_day now"
    by (rule within_today_iff)
  show ?thesis
    using c d Some
    by (simp add: in_window_def created_and_due_today_def is_candidate_def timedelta_hours_def)
      blast
qed

lemma mem_tasks_due_soon:
  "t \<in> set (tasks_due_soon now ts) \<longleftrightarrow> t \<in> set ts \<and> is_candidate now t"
  using tasks_due_soon_member [of now t]
  by (auto simp: tasks_due_soon_def Let_def)

text \<open>
  Claim C2. On a run at time \<open>now\<close>, the candidates of the deadline scan are exactly the
  tasks that have a deadline \<open>d\<close> with \<open>now < d \<le> now + 24h\<close>, whose status is not Done, and
  for which it is not the case that the creation time and the deadline both fall in the
  calendar day of \<open>now\<close>; each such task is a candidate as often as it is in the table.
\<close>

theorem candidate_set_exact:
  "tasks_due_soon now ts = filter (is_candidate now) ts"
proof -
  have "tasks_due_soon now ts =
        filter (\<lambda>t. in_window now (now + timedelta_hours 24) t \<and>
                    \<not> created_and_due_today (replace_time now 0 0 0 0)
                        (replace_time now 23 59 59 999999) t \<and>
                    status t \<noteq> DONE) ts"
    by (simp add: tasks_due_soon_def Let_def conj_commute conj_left_commute)
  then show ?thesis by (simp only: tasks_due_soon_member)
qed

text \<open>The four cases the specification lists, for any \<open>now\<close>.\<close>

lemma due_in_23h_created_10_days_ago_included:
  assumes "t \<in> set ts" "deadline t = Some (now + 23 * 3600000000)" "status t = NEW"
    and "created_at t = now - 10 * 86400000000"
  shows "t \<in> set (tasks_due_soon now ts)"
proof -
  have "calendar_day (now - 10 * 86400000000) = calendar_day now - 10"
    unfolding calendar_day_def by simp
  then show ?thesis
    using assms by (simp add: mem_tasks_due_soon is_candidate_def)
qed

lemma created_and_due_today_excluded:
  assumes "deadline t = Some d" "calendar_day (created_at t) = calendar_day now"
    and "calendar_day d = calendar_day now"
  shows "t \<notin> set (tasks_due_soon now ts)"
  using assms by (simp add: mem_tasks_due_soon is_candidate_def)

lemma due_in_25h_excluded:
  assumes "deadline t = Some (now + 25 * 3600000000)"
  shows "t \<notin> set (tasks_due_soon now ts)"
  using assms by (simp add: mem_tasks_due_soon is_candidate_def)

lemma done_excluded:
  assumes "status t = DONE"
  shows "t \<notin> set (tasks_due_soon now ts)"
  using assms by (simp add: mem_tasks_due_soon is_candidate_def split: option.split)

section \<open>The hours reported in a reminder\<close>

text \<open>
  Claim C8. For every candidate of a scan at time \<open>now\<close>, with deadline \<open>d\<close>, the hours
  remaining reported in the reminder are the floor of the seconds from \<open>now\<close> to \<open>d\<close>
  divided by 3600; a deadline 3 hours and 30 minutes after \<open>now\<close> gives 3.
\<close>

theorem hours_remaining_floor:
  assumes "t \<in> set (tasks_due_soon now ts)" and "deadline t = Some d"
  shows "hours_remaining now d = \<lfloor>(of_int (d - now) / 1000000 :: rat) / 3600\<rfloor> \<and>
         hours_remaining now' (now' + 12600000000) = 3"
proof -
  have "is_candidate now t" using assms(1) by (simp add: mem_tasks_due_soon)
  then have td: "0 < d - now" "d - now \<le> 86400000000"
    using assms(2) by (simp_all add: is_candidate_def)
  have "hours_remaining now d = (d - now) div 3600000000"
    using hours_floor [OF td] by (simp add: hours_remaining_def)
  also have "\<dots> = \<lfloor>(of_int (d - now) :: rat) / of_int 3600000000\<rfloor>"
    by (simp only: floor_divide_of_int_eq)
  also have "(of_int (d - now) :: rat) / of_int 3600000000 = (of_int (d - now) / 1000000) / 3600"
    by simp
  finally have a: "hours_remaining now d = \<lfloor>(of_int (d - now) / 1000000 :: rat) / 3600\<rfloor>" .
  have "hours_remaining now' (now' + 12600000000) = 12600000000 div 3600000000"
    using hours_floor [of 12600000000] by (simp add: hours_remaining_def)
  then have b: "hours_remaining now' (now' + 12600000000) = 3" by simp
  show ?thesis using a b by simp
qed

theorem hours_remaining_floor_witness:
  "\<lparr>task_id = 1, title = ''report'', description = None, status = NEW, priority = MEDIUM,
     deadline = Some 12600000000, owner = 1, created_at = - 864000000000,
     updated_at = - 864000000000\<rparr>
     \<in> set (tasks_due_soon 0
         [\<lparr>task_id = 1, title = ''report'', description = None, status = NEW, priority = MEDIUM,
           deadline = Some 12600000000, owner = 1, created_at = - 864000000000,
           updated_at = - 864000000000\<rparr>]) \<and>
   hours_remaining 0 12600000000 = 3"
proof -
  define t where "t = \<lparr>task_id = 1, title = ''report'', description = None, status = NEW,
     priority = MEDIUM, deadline = Some 12600000000, owner = 1,
     created_at = - 864000000000, updated_at = - 864000000000\<rparr>"
  have m: "t \<in> set (tasks_due_soon 0 [t])"
    by (simp add: t_def mem_tasks_due_soon is_candidate_def calendar_day_def)
  have d: "deadline t = Some 12600000000" by (simp add: t_def)
  have "hours_remaining 0 (0 + 12600000000) = 3"
    using hours_remaining_floor [OF m d, of 0] by (rule conjunct2)
  then have "hours_remaining 0 12600000000 = 3" by simp
  then show ?thesis using m by (simp add: t_def)
qed

section \<open>Due soon\<close>

text \<open>
  For a task whose deadline, when it has one, is less than \<open>2^34\<close> seconds after \<open>now\<close>, the
  method is exact: it holds iff the deadline is set, the status is not Done, and the
  deadline is after \<open>now\<close> and at most \<open>hours * 3600\<close> seconds after it.
\<close>

lemma is_due_soon_exact_when_near:
  assumes "deadline_near now t"
  shows "is_due_soon now t hours \<longleftrightarrow> due_within now t hours"
proof (cases "deadline t")
  case None
  then show ?thesis by (simp add: is_due_soon_def due_within_def)
next
  case (Some d)
  then have "d - now < 17179869184000000" using assms by (simp add: deadline_near_def)
  then show ?thesis
    using Some due_soon_exact_34 [of "d - now" hours]
    by (simp add: is_due_soon_def due_within_def Let_def)
qed

text \<open>
  Claim C9 states that \<open>is_due_soon\<close> holds iff the deadline is set, the status is not Done
  and the deadline is after \<open>now\<close> and at most \<open>hours * 3600\<close> seconds after it. The method
  does not keep the upper bound: it compares the seconds of the difference rounded to a
  float. For a task with status New whose deadline is 5000000 hours and one microsecond
  after \<open>now\<close>, \<open>is_due_soon\<close> with 5000000 hours holds, and the deadline is not within
  5000000 hours.
\<close>

theorem is_due_soon_true_past_the_bound:
  "is_due_soon 0 \<lparr>task_id = 1, title = ''report'', description = None, status = NEW,
       priority = MEDIUM, deadline = Some 18000000000000001, owner = 1, created_at = 0,
       updated_at = 0\<rparr> 5000000 \<and>
   \<not> due_within 0 \<lparr>task_id = 1, title = ''report'', description = None, status = NEW,
       priority = MEDIUM, deadline = Some 18000000000000001, owner = 1, created_at = 0,
       updated_at = 0\<rparr> 5000000"
  by (simp add: is_due_soon_def due_within_def total_seconds_far)

section \<open>Queries and the visible tasks\<close>

lemma objects_get_single: "filter P rows = [x] \<Longrightarrow> objects_get P rows = Inr x"
  by (simp add: objects_get_def)

lemma objects_get_empty: "filter P rows = [] \<Longrightarrow> objects_get P rows = Inl DoesNotExist"
  by (simp add: objects_get_def)

lemma objects_get_Inr_mem: "objects_get P rows = Inr x \<Longrightarrow> x \<in> set rows \<and> P x"
proof -
  assume a: "objects_get P rows = Inr x"
  then have "filter P rows = [x]"
    by (auto simp: objects_get_def split: list.splits)
  then have "x \<in> set (filter P rows)" by simp
  then show ?thesis by simp
qed

lemma objects_get_DoesNotExist: "objects_get P rows = Inl DoesNotExist \<Longrightarrow> filter P rows = []"
  by (auto simp: objects_get_def split: list.splits)

lemma filter_key_single:
  "distinct (map f xs) \<Longrightarrow> x \<in> set xs \<Longrightarrow> filter (\<lambda>y. f y = f x) xs = [x]"
proof (induction xs)
  case Nil
  then show ?case by simp
next
  case (Cons a xs)
  show ?case
  proof (cases "a = x")
    case True
    have "f x \<notin> f ` set xs" using Cons.prems(1) True by simp
    then have "filter (\<lambda>y. f y = f x) xs = []" by (auto simp: filter_empty_conv) (metis imageI)
    then show ?thesis using True by simp
  next
    case False
    then have x: "x \<in> set xs" using Cons.prems(2) by simp
    then have "f a \<noteq> f x" using Cons.prems(1) by auto
    then show ?thesis using Cons.IH Cons.prems(1) x by simp
  qed
qed

lemma unique_share_lookup:
  assumes "unique_together rows" "s \<in> set rows"
  shows "objects_get (\<lambda>x. task x = task s \<and> shared_with x = shared_with s) rows = Inr s"
proof -
  have "filter (\<lambda>y. (task y, shared_with y) = (task s, shared_with s)) rows = [s]"
    using assms unfolding unique_together_def
    by (intro filter_key_single [where f = "\<lambda>s. (task s, shared_with s)"])
  then show ?thesis by (intro objects_get_single) simp
qed

lemma no_share_lookup:
  assumes "\<not> (\<exists>s\<in>set rows. task s = t \<and> shared_with s = u)"
  shows "objects_get (\<lambda>x. task x = t \<and> shared_with x = u) rows = Inl DoesNotExist"
  using assms by (intro objects_get_empty) (auto simp: filter_empty_conv)

lemma join_rows_of_task:
  "set (case filter (\<lambda>s. task s = task_id t) rows of
          [] \<Rightarrow> [(t, None)]
        | ss \<Rightarrow> map (\<lambda>s. (t, Some s)) ss) =
   (if \<exists>s\<in>set rows. task s = task_id t
    then {(t, Some s) | s. s \<in> set rows \<and> task s = task_id t}
    else {(t, None)})"
proof (cases "filter (\<lambda>s. task s = task_id t) rows")
  case Nil
  then have "\<not> (\<exists>s\<in>set rows. task s = task_id t)" by (simp add: filter_empty_conv)
  then show ?thesis using Nil by simp
next
  case (Cons a ss)
  then have "a \<in> set (filter (\<lambda>s. task s = task_id t) rows)" by simp
  then have e: "\<exists>s\<in>set rows. task s = task_id t" by auto
  have "set (map (\<lambda>s. (t, Some s)) (filter (\<lambda>s. task s = task_id t) rows)) =
        {(t, Some s) | s. s \<in> set rows \<and> task s = task_id t}" by auto
  then show ?thesis using e Cons by simp
qed

lemma mem_left_join:
  "(t, so) \<in> set (left_join_shares ts rows) \<longleftrightarrow>
     t \<in> set ts \<and>
     (if \<exists>s\<in>set rows. task s = task_id t
      then \<exists>s. so = Some s \<and> s \<in> set rows \<and> task s = task_id t
      else so = None)"
proof -
  define rows_of where "rows_of = (\<lambda>t::Task. case filter (\<lambda>s. task s = task_id t) rows of
                          [] \<Rightarrow> [(t, None)]
                        | ss \<Rightarrow> map (\<lambda>s. (t, Some s)) ss)"
  have set_rows: "\<And>t'. set (rows_of t') =
     (if \<exists>s\<in>set rows. task s = task_id t'
      then {(t', Some s) | s. s \<in> set rows \<and> task s = task_id t'}
      else {(t', None)})"
    unfolding rows_of_def by (rule join_rows_of_task)
  have fst_rows: "\<And>t'. (t, so) \<in> set (rows_of t') \<Longrightarrow> t' = t"
  proof -
    fix t' assume "(t, so) \<in> set (rows_of t')"
    then show "t' = t" unfolding set_rows by (cases "\<exists>s\<in>set rows. task s = task_id t'") auto
  qed
  have "left_join_shares ts rows = concat (map rows_of ts)"
    by (simp add: left_join_shares_def rows_of_def)
  then have "(t, so) \<in> set (left_join_shares ts rows) \<longleftrightarrow> (\<exists>t'\<in>set ts. (t, so) \<in> set (rows_of t'))"
    by simp
  also have "\<dots> \<longleftrightarrow> t \<in> set ts \<and> (t, so) \<in> set (rows_of t)"
    using fst_rows by blast
  also have "(t, so) \<in> set (rows_of t) \<longleftrightarrow>
     (if \<exists>s\<in>set rows. task s = task_id t
      then \<exists>s. so = Some s \<and> s \<in> set rows \<and> task s = task_id t
      else so = None)"
    unfolding set_rows by auto
  finally show ?thesis .
qed

lemma mem_get_queryset:
  "t \<in> set (get_queryset st u) \<longleftrightarrow>
     t \<in> set (tasks st) \<and>
     (owner t = u \<or> (\<exists>s\<in>set (task_shares st). task s = task_id t \<and> shared_with s = u))"
proof -
  let ?J = "left_join_shares (tasks st) (task_shares st)"
  have "t \<in> set (get_queryset st u) \<longleftrightarrow> t \<in> fst ` {x \<in> set ?J. owned_or_shared u x}"
    by (simp add: get_queryset_def)
  also have "\<dots> \<longleftrightarrow> (\<exists>so. (t, so) \<in> set ?J \<and> owned_or_shared u (t, so))"
  proof
    assume "t \<in> fst ` {x \<in> set ?J. owned_or_shared u x}"
    then obtain x where x: "x \<in> set ?J" "owned_or_shared u x" "t = fst x" by blast
    then have "(t, snd x) \<in> set ?J \<and> owned_or_shared u (t, snd x)" by simp
    then show "\<exists>so. (t, so) \<in> set ?J \<and> owned_or_shared u (t, so)" ..
  next
    assume "\<exists>so. (t, so) \<in> set ?J \<and> owned_or_shared u (t, so)"
    then obtain so where "(t, so) \<in> {x \<in> set ?J. owned_or_shared u x}" by blast
    then have "fst (t, so) \<in> fst ` {x \<in> set ?J. owned_or_shared u x}" by (rule imageI)
    then show "t \<in> fst ` {x \<in> set ?J. owned_or_shared u x}" by simp
  qed
  also have "\<dots> \<longleftrightarrow> t \<in> set (tasks st) \<and>
     (owner t = u \<or> (\<exists>s\<in>set (task_shares st). task s = task_id t \<and> shared_with s = u))"
    (is "?L \<longleftrightarrow> ?R")
  proof
    assume ?L
    then obtain so where so: "(t, so) \<in> set ?J" "owned_or_shared u (t, so)" by blast
    have t: "t \<in> set (tasks st)" using so(1) by (simp add: mem_left_join)
    show ?R
    proof (cases "owner t = u")
      case True
      then show ?thesis using t by simp
    next
      case False
      then obtain s where s: "so = Some s" "shared_with s = u"
        using so(2) by (cases so) (simp_all add: owned_or_shared_def)
      have "s \<in> set (task_shares st) \<and> task s = task_id t"
        using so(1) s(1) by (simp add: mem_left_join split: if_splits)
      then show ?thesis using t s(2) by blast
    qed
  next
    assume r: ?R
    then have t: "t \<in> set (tasks st)" by simp
    show ?L
    proof (cases "\<exists>s\<in>set (task_shares st). task s = task_id t \<and> shared_with s = u")
      case True
      then obtain s where s: "s \<in> set (task_shares st)" "task s = task_id t" "shared_with s = u"
        by blast
      then have "(t, Some s) \<in> set ?J" using t by (simp add: mem_left_join) blast
      moreover have "owned_or_shared u (t, Some s)" using s(3) by (simp add: owned_or_shared_def)
      ultimately show ?thesis by blast
    next
      case False
      then have o: "owner t = u" using r by blast
      show ?thesis
      proof (cases "\<exists>s\<in>set (task_shares st). task s = task_id t")
        case True
        then obtain s where "s \<in> set (task_shares st)" "task s = task_id t" by blast
        then have "(t, Some s) \<in> set ?J" using t by (simp add: mem_left_join) blast
        moreover have "owned_or_shared u (t, Some s)" using o by (simp add: owned_or_shared_def)
        ultimately show ?thesis by blast
      next
        case False
        then have "(t, None) \<in> set ?J" using t by (simp add: mem_left_join)
        moreover have "owned_or_shared u (t, None)" using o by (simp add: owned_or_shared_def)
        ultimately show ?thesis by blast
      qed
    qed
  qed
  finally show ?thesis .
qed

lemma set_get_queryset:
  "set (get_queryset st u) =
     {t \<in> set (tasks st). owner t = u \<or>
        (\<exists>s\<in>set (task_shares st). task s = task_id t \<and> shared_with s = u)}"
  by (rule set_eqI) (simp add: mem_get_queryset)

lemma distinct_get_queryset: "distinct (get_queryset st u)"
  by (simp add: get_queryset_def)


lemma distinct_ids_get_queryset:
  assumes "distinct (map task_id (tasks st))"
  shows "distinct (map task_id (get_queryset st u))"
proof -
  have "inj_on task_id (set (tasks st))" using assms by (simp add: distinct_map)
  moreover have "set (get_queryset st u) \<subseteq> set (tasks st)"
    by (auto simp: mem_get_queryset)
  ultimately have "inj_on task_id (set (get_queryset st u))" by (rule inj_on_subset)
  then show ?thesis by (simp add: distinct_map distinct_get_queryset)
qed

lemma queryset_lookup:
  assumes "distinct (map task_id (tasks st))" "t \<in> set (get_queryset st u)"
  shows "objects_get (\<lambda>x. task_id x = pk) (get_queryset st u) =
         (if pk = task_id t then Inr t else objects_get (\<lambda>x. task_id x = pk) (get_queryset st u))"
proof (cases "pk = task_id t")
  case True
  have "filter (\<lambda>x. task_id x = task_id t) (get_queryset st u) = [t]"
    using distinct_ids_get_queryset [OF assms(1)] assms(2) by (rule filter_key_single)
  then show ?thesis using True by (simp add: objects_get_single)
next
  case False
  then show ?thesis by simp
qed

lemma get_object_visible:
  assumes "distinct (map task_id (tasks st))" "t \<in> set (tasks st)"
    and "owner t = u \<or> (\<exists>s\<in>set (task_shares st). task s = task_id t \<and> shared_with s = u)"
  shows "get_object st u (task_id t) perm =
         (case perm t of
            Inl e \<Rightarrow> Inl (Server_error e)
          | Inr allowed \<Rightarrow> if allowed then Inr t else Inl PermissionDenied)"
proof -
  have "t \<in> set (get_queryset st u)" using assms(2,3) by (simp add: mem_get_queryset)
  then have "objects_get (\<lambda>x. task_id x = task_id t) (get_queryset st u) = Inr t"
    using queryset_lookup [OF assms(1), of t u "task_id t"] by simp
  then show ?thesis by (simp add: get_object_def)
qed

section \<open>Invariants of the share table\<close>

lemma share_table_ok_filter:
  assumes "share_table_ok st"
  shows "share_table_ok (st\<lparr>task_shares := filter P (task_shares st)\<rparr>)"
    and "share_table_ok (st\<lparr>tasks := ts, task_shares := filter P (task_shares st)\<rparr>)"
  using assms
  by (simp_all add: share_table_ok_def unique_together_def share_ids_fresh_def
        distinct_map_filter list_all_iff)

lemma update_or_create_ok:
  assumes ok: "share_table_ok st" and r: "update_or_create st now t u p = Inr (s, created, st')"
  shows "share_table_ok st'"
proof (cases "objects_get (\<lambda>s. task s = t \<and> shared_with s = u) (task_shares st)")
  case (Inl e)
  then have e: "e = DoesNotExist" using r by (cases e) (simp_all add: update_or_create_def)
  then have "filter (\<lambda>s. task s = t \<and> shared_with s = u) (task_shares st) = []"
    using Inl by (simp add: objects_get_DoesNotExist)
  then have fresh: "(t, u) \<notin> set (map (\<lambda>s. (task s, shared_with s)) (task_shares st))"
    by (auto simp: filter_empty_conv)
  have st': "st' = st\<lparr>task_shares := task_shares st @
                 [\<lparr>share_id = next_share_id st, task = t, shared_with = u,
                   permission = p, shared_at = now\<rparr>],
               next_share_id := Suc (next_share_id st)\<rparr>"
    using r Inl e by (auto simp: update_or_create_def Let_def)
  have ids: "next_share_id st \<notin> set (map share_id (task_shares st))"
    using ok by (auto simp: share_table_ok_def share_ids_fresh_def list_all_iff)
  show ?thesis
    using ok fresh ids unfolding st'
    by (auto simp: share_table_ok_def unique_together_def share_ids_fresh_def list_all_iff)
next
  case (Inr s0)
  then have m: "s0 \<in> set (task_shares st)" by (auto dest: objects_get_Inr_mem)
  have st': "st' = st\<lparr>task_shares :=
        map (\<lambda>x. if share_id x = share_id s0 then s0\<lparr>permission := p\<rparr> else x) (task_shares st)\<rparr>"
    using r Inr by (auto simp: update_or_create_def Let_def)
  have inj: "inj_on share_id (set (task_shares st))"
    using ok by (simp add: share_table_ok_def share_ids_fresh_def distinct_map)
  have same: "\<And>x. x \<in> set (task_shares st) \<Longrightarrow> share_id x = share_id s0 \<Longrightarrow> x = s0"
    using inj m by (auto dest: inj_onD)
  have k: "map (\<lambda>s. (task s, shared_with s))
             (map (\<lambda>x. if share_id x = share_id s0 then s0\<lparr>permission := p\<rparr> else x) (task_shares st))
           = map (\<lambda>s. (task s, shared_with s)) (task_shares st)"
    using same by (auto simp: map_eq_conv)
  have i: "map share_id
             (map (\<lambda>x. if share_id x = share_id s0 then s0\<lparr>permission := p\<rparr> else x) (task_shares st))
           = map share_id (task_shares st)"
    by (auto simp: map_eq_conv)
  have ts': "task_shares st' =
        map (\<lambda>x. if share_id x = share_id s0 then s0\<lparr>permission := p\<rparr> else x) (task_shares st)"
    by (simp add: st')
  then have "map (\<lambda>s. (task s, shared_with s)) (task_shares st') =
             map (\<lambda>s. (task s, shared_with s)) (task_shares st)"
    by (simp only: k)
  then have "unique_together (task_shares st')"
    using ok unfolding unique_together_def share_table_ok_def by simp
  moreover have "share_ids_fresh st'"
  proof -
    have a: "map share_id (task_shares st') = map share_id (task_shares st)"
      using ts' by (simp only: i)
    have b: "next_share_id st' = next_share_id st" by (simp add: st')
    have "list_all (\<lambda>s. share_id s < next_share_id st) (task_shares st) \<longleftrightarrow>
          (\<forall>n\<in>set (map share_id (task_shares st)). n < next_share_id st)"
      by (simp add: list_all_iff)
    moreover have "list_all (\<lambda>s. share_id s < next_share_id st') (task_shares st') \<longleftrightarrow>
          (\<forall>n\<in>set (map share_id (task_shares st')). n < next_share_id st')"
      by (simp add: list_all_iff)
    ultimately show ?thesis
      using ok unfolding share_ids_fresh_def share_table_ok_def a b by blast
  qed
  ultimately show ?thesis by (simp add: share_table_ok_def)
qed

lemma share_state:
  "snd (share EmailField str_lower st now request_user pk data) = st \<or>
   (\<exists>t u p s created. update_or_create st now t u p =
       Inr (s, created, snd (share EmailField str_lower st now request_user pk data)))"
  unfolding share_def
  by (auto split: option.splits sum.splits prod.splits orm_error.splits if_splits)

lemma revoke_share_state:
  "snd (revoke_share st request_user pk uid) = st \<or>
   (\<exists>P. snd (revoke_share st request_user pk uid) = st\<lparr>task_shares := filter P (task_shares st)\<rparr>)"
  unfolding revoke_share_def
  by (auto split: option.splits sum.splits orm_error.splits)

lemma destroy_state:
  "snd (destroy st request_user pk) = st \<or>
   (\<exists>P ts. snd (destroy st request_user pk) =
        st\<lparr>tasks := ts, task_shares := filter P (task_shares st)\<rparr>)"
  unfolding destroy_def
  by (auto split: option.splits sum.splits if_splits)

lemma reachable_ok: "reachable st \<Longrightarrow> share_table_ok st"
proof (induction rule: reachable.induct)
  case (initial st)
  then show ?case
    by (simp add: share_table_ok_def unique_together_def share_ids_fresh_def)
next
  case (after_share st EmailField str_lower now request_user pk data)
  then show ?case
    using share_state [of EmailField str_lower st now request_user pk data] update_or_create_ok
    by metis
next
  case (after_revoke_share st request_user pk uid)
  then show ?case
    using revoke_share_state [of st request_user pk uid] share_table_ok_filter(1)
    by metis
next
  case (after_destroy st request_user pk)
  then show ?case
    using destroy_state [of st request_user pk] share_table_ok_filter(2)
    by metis
qed

section \<open>Object permissions\<close>

lemma has_object_permission_eval:
  assumes "unique_together rows"
  shows "IsTaskOwnerOrSharedWith_has_object_permission rows u m t =
         Inr (owner t = u \<or>
              (\<exists>s\<in>set rows. task s = task_id t \<and> shared_with s = u \<and>
                 (m \<in> SAFE_METHODS \<or> permission s = EDIT)))"
proof (cases "owner t = u")
  case True
  then show ?thesis by (simp add: IsTaskOwnerOrSharedWith_has_object_permission_def)
next
  case False
  show ?thesis
  proof (cases "\<exists>s\<in>set rows. task s = task_id t \<and> shared_with s = u")
    case True
    then obtain s where s: "s \<in> set rows" "task s = task_id t" "shared_with s = u" by blast
    have g: "objects_get (\<lambda>x. task x = task_id t \<and> shared_with x = u) rows = Inr s"
      using unique_share_lookup [OF assms s(1)] s(2,3) by simp
    have only: "\<And>x. x \<in> set rows \<Longrightarrow> task x = task_id t \<Longrightarrow> shared_with x = u \<Longrightarrow> x = s"
    proof -
      fix x assume x: "x \<in> set rows" "task x = task_id t" "shared_with x = u"
      have "objects_get (\<lambda>y. task y = task x \<and> shared_with y = shared_with x) rows = Inr x"
        using assms x(1) by (rule unique_share_lookup)
      then show "x = s" using g x(2,3) by simp
    qed
    have "(\<exists>x\<in>set rows. task x = task_id t \<and> shared_with x = u \<and>
             (m \<in> SAFE_METHODS \<or> permission x = EDIT)) \<longleftrightarrow>
          (m \<in> SAFE_METHODS \<or> permission s = EDIT)"
      using s only by blast
    then show ?thesis
      using False g by (simp add: IsTaskOwnerOrSharedWith_has_object_permission_def)
  next
    case none: False
    then have "objects_get (\<lambda>x. task x = task_id t \<and> shared_with x = u) rows = Inl DoesNotExist"
      by (rule no_share_lookup)
    moreover have "\<not> (\<exists>s\<in>set rows. task s = task_id t \<and> shared_with s = u \<and>
                 (m \<in> SAFE_METHODS \<or> permission s = EDIT))"
      using none by blast
    ultimately show ?thesis
      using False by (simp add: IsTaskOwnerOrSharedWith_has_object_permission_def)
  qed
qed

lemma reachable_unique: "reachable st \<Longrightarrow> unique_together (task_shares st)"
  using reachable_ok by (simp add: share_table_ok_def)

text \<open>
  Claim C1. In every state of the share table reachable by share creations and deletions,
  for every task \<open>t\<close> and user \<open>u\<close>: on a safe (read) request the object permission is
  granted iff \<open>u\<close> is the owner of \<open>t\<close> or a share of \<open>t\<close> with \<open>u\<close> exists; when \<open>u\<close> is
  neither, the permission is denied on every request.
\<close>

theorem view_permission_iff_owner_or_shared:
  assumes "reachable st"
  shows "(request_method \<in> SAFE_METHODS \<longrightarrow>
           IsTaskOwnerOrSharedWith_has_object_permission (task_shares st) u request_method t =
             Inr (owner t = u \<or>
                  (\<exists>s\<in>set (task_shares st). task s = task_id t \<and> shared_with s = u))) \<and>
         (owner t \<noteq> u \<and>
          \<not> (\<exists>s\<in>set (task_shares st). task s = task_id t \<and> shared_with s = u) \<longrightarrow>
           IsTaskOwnerOrSharedWith_has_object_permission (task_shares st) u request_method t =
             Inr False)"
proof -
  have u: "unique_together (task_shares st)" using assms by (rule reachable_unique)
  show ?thesis
    unfolding has_object_permission_eval [OF u] by auto
qed

lemma example_share_bob:
  "share Some ascii_lower example_db 10 (Some 1) 1 (share_with ''Bob@Example.com'' EDIT) =
     (Inr (bob_share EDIT, 201),
      example_db\<lparr>task_shares := [bob_share EDIT], next_share_id := 2\<rparr>)"
  by code_simp

lemma example_reachable:
  "reachable (example_db\<lparr>task_shares := [bob_share EDIT], next_share_id := 2\<rparr>)"
proof -
  have "reachable example_db" by (rule reachable.initial) (simp add: example_db_def)
  then have "reachable (snd (share Some ascii_lower example_db 10 (Some 1) 1
                               (share_with ''Bob@Example.com'' EDIT)))"
    by (rule reachable.after_share)
  then show ?thesis by (simp only: example_share_bob snd_conv)
qed

theorem view_permission_iff_owner_or_shared_witness:
  "reachable (example_db\<lparr>task_shares := [bob_share EDIT], next_share_id := 2\<rparr>) \<and>
   GET \<in> SAFE_METHODS \<and>
   IsTaskOwnerOrSharedWith_has_object_permission [bob_share EDIT] 2 GET report = Inr True \<and>
   IsTaskOwnerOrSharedWith_has_object_permission [bob_share EDIT] 3 GET report = Inr False"
proof -
  have g: "GET \<in> SAFE_METHODS" by (simp add: SAFE_METHODS_def)
  have "IsTaskOwnerOrSharedWith_has_object_permission [bob_share EDIT] 2 GET report = Inr True"
    using view_permission_iff_owner_or_shared [OF example_reachable, of GET 2 report] g
    by (simp add: bob_share_def report_def)
  moreover
  have "IsTaskOwnerOrSharedWith_has_object_permission [bob_share EDIT] 3 GET report = Inr False"
    using view_permission_iff_owner_or_shared [OF example_reachable, of GET 3 report]
    by (simp add: bob_share_def report_def)
  ultimately show ?thesis using example_reachable g by simp
qed

section \<open>The visible tasks\<close>

text \<open>
  Claim C7. For every principal \<open>p\<close>, the tasks of the queryset are exactly the tasks owned
  by \<open>p\<close> together with the tasks that have a share with grantee \<open>p\<close>, and no task is in the
  queryset twice: with the primary key of the task table, no task id is.
\<close>

theorem visible_tasks_union_without_duplicates:
  assumes "distinct (map task_id (tasks st))"
  shows "set (get_queryset st p) =
           {t \<in> set (tasks st). owner t = p} \<union>
           {t \<in> set (tasks st).
              \<exists>s\<in>set (task_shares st). task s = task_id t \<and> shared_with s = p} \<and>
         distinct (get_queryset st p) \<and>
         distinct (map task_id (get_queryset st p))"
proof -
  have "set (get_queryset st p) =
           {t \<in> set (tasks st). owner t = p} \<union>
           {t \<in> set (tasks st).
              \<exists>s\<in>set (task_shares st). task s = task_id t \<and> shared_with s = p}"
    unfolding set_get_queryset by blast
  then show ?thesis
    using distinct_ids_get_queryset [OF assms] distinct_get_queryset by simp
qed

theorem visible_tasks_union_without_duplicates_witness:
  "distinct (map task_id (tasks (example_db\<lparr>task_shares := [bob_share EDIT, carol_share]\<rparr>))) \<and>
   get_queryset (example_db\<lparr>task_shares := [bob_share EDIT, carol_share]\<rparr>) 1 = [report] \<and>
   distinct (map task_id (get_queryset (example_db\<lparr>task_shares := [bob_share EDIT, carol_share]\<rparr>) 1))"
proof -
  have d: "distinct (map task_id (tasks (example_db\<lparr>task_shares := [bob_share EDIT, carol_share]\<rparr>)))"
    by (simp add: example_db_def report_def memo_def)
  have q: "get_queryset (example_db\<lparr>task_shares := [bob_share EDIT, carol_share]\<rparr>) 1 = [report]"
    by code_simp
  show ?thesis
    using visible_tasks_union_without_duplicates [OF d, of 1] d q by simp
qed

section \<open>The share action by the owner\<close>

lemma users_lookup_found:
  assumes "distinct (map email us)" "g \<in> set us"
  shows "objects_get (\<lambda>u. email u = email g) us = Inr g"
  using assms by (intro objects_get_single filter_key_single)


lemma is_valid_found:
  assumes "distinct (map email us)" "g \<in> set us" "EmailField raw = Some v" "str_lower v = email g"
  shows "is_valid EmailField str_lower us \<lparr>req_shared_with_email = Some raw, req_permission = perm\<rparr> =
         Inr (case permission_field perm of
                Inr p \<Rightarrow> Inr (str_lower v, p)
              | Inl e \<Rightarrow> Inl [(''permission'', e)])"
proof -
  have "objects_get (\<lambda>u. email u = str_lower v) us = Inr g"
    using users_lookup_found [OF assms(1,2)] assms(4) by simp
  then show ?thesis
    using assms(3)
    by (simp add: is_valid_def shared_with_email_field_def validate_shared_with_email_def
          split: sum.splits)
qed


lemma owner_get_object:
  assumes "keys_ok st" "t \<in> set (tasks st)"
  shows "get_object st (owner t) (task_id t) (CanShareTask_has_object_permission (owner t)) = Inr t"
proof -
  have "distinct (map task_id (tasks st))" using assms(1) by (simp add: keys_ok_def)
  then show ?thesis
    using assms(2)
    by (simp add: get_object_visible CanShareTask_has_object_permission_def)
qed

lemma share_by_owner:
  assumes k: "keys_ok st" and t: "t \<in> set (tasks st)" and g: "g \<in> set (users st)"
    and e: "EmailField raw = Some v" "str_lower v = email g"
    and p: "permission_field perm = Inr p"
  shows "share EmailField str_lower st now (Some (owner t)) (task_id t)
           \<lparr>req_shared_with_email = Some raw, req_permission = perm\<rparr> =
         (if user_id g = owner t then (Inl Cannot_share_with_yourself, st)
          else case update_or_create st now (task_id t) (user_id g) p of
                 Inl e \<Rightarrow> (Inl (Server_error e), st)
               | Inr (s, created, st') \<Rightarrow>
                   (Inr (s, if created then HTTP_201_CREATED else HTTP_200_OK), st'))"
proof -
  have d: "distinct (map email (users st))" using k by (simp add: keys_ok_def)
  have v: "is_valid EmailField str_lower (users st)
             \<lparr>req_shared_with_email = Some raw, req_permission = perm\<rparr> = Inr (Inr (str_lower v, p))"
    using is_valid_found [where EmailField = EmailField and str_lower = str_lower and raw = raw, OF d g e] p by simp
  have l: "objects_get (\<lambda>u. email u = str_lower v) (users st) = Inr g"
    using users_lookup_found [OF d g] e(2) by simp
  show ?thesis
    unfolding share_def
    by (simp add: owner_get_object [OF k t] v l split: sum.splits prod.splits)
qed

text \<open>
  Claim C6. For every task, every permission value and every grantee email that resolves
  to the owner of the task, the share action of the owner fails (with status 400, "Cannot
  share task with yourself") and the state, so the share table, is unchanged.
\<close>

theorem self_share_rejected:
  assumes "keys_ok st" and "t \<in> set (tasks st)"
    and "g \<in> set (users st)" and "user_id g = owner t"
    and "EmailField raw = Some v" and "str_lower v = email g"
    and "permission_field perm = Inr p"
  shows "share EmailField str_lower st now (Some (owner t)) (task_id t)
           \<lparr>req_shared_with_email = Some raw, req_permission = perm\<rparr> =
         (Inl Cannot_share_with_yourself, st) \<and>
         status_code Cannot_share_with_yourself = 400"
  using share_by_owner [where EmailField = EmailField and str_lower = str_lower and raw = raw, OF assms(1,2,3,5,6,7)] assms(4) by simp

theorem self_share_rejected_witness:
  "keys_ok example_db \<and> report \<in> set (tasks example_db) \<and> alice \<in> set (users example_db) \<and>
   user_id alice = owner report \<and> ascii_lower ''Alice@Example.com'' = email alice \<and>
   permission_field (Some ''edit'') = Inr EDIT \<and>
   share Some ascii_lower example_db 10 (Some 1) 1
      \<lparr>req_shared_with_email = Some ''Alice@Example.com'', req_permission = Some ''edit''\<rparr> =
     (Inl Cannot_share_with_yourself, example_db)"
proof -
  have k: "keys_ok example_db" by code_simp
  have t: "report \<in> set (tasks example_db)" by (simp add: example_db_def)
  have g: "alice \<in> set (users example_db)" by (simp add: example_db_def)
  have o: "user_id alice = owner report" by (simp add: alice_def report_def)
  have e: "Some ''Alice@Example.com'' = Some ''Alice@Example.com''" by simp
  have l: "ascii_lower ''Alice@Example.com'' = email alice" by code_simp
  have p: "permission_field (Some ''edit'') = Inr EDIT" by (simp add: permission_field_def)
  have "share Some ascii_lower example_db 10 (Some (owner report)) (task_id report)
      \<lparr>req_shared_with_email = Some ''Alice@Example.com'', req_permission = Some ''edit''\<rparr> =
     (Inl Cannot_share_with_yourself, example_db)"
    using self_share_rejected [where EmailField = Some and str_lower = ascii_lower and raw = "''Alice@Example.com''", OF k t g o e l p] by simp
  then show ?thesis using k t g o l p by (simp add: report_def)
qed

section \<open>The lookup of the grantee\<close>








section \<open>Upsert of a share\<close>

lemma unique_share_filter:
  assumes "unique_together rows" "s \<in> set rows"
  shows "filter (\<lambda>x. task x = task s \<and> shared_with x = shared_with s) rows = [s]"
proof -
  have "filter (\<lambda>y. (task y, shared_with y) = (task s, shared_with s)) rows = [s]"
    using assms unfolding unique_together_def
    by (intro filter_key_single [where f = "\<lambda>s. (task s, shared_with s)"])
  then show ?thesis by simp
qed

lemma unique_length_filter:
  assumes "unique_together rows"
  shows "length (filter (\<lambda>x. task x = a \<and> shared_with x = b) rows) \<le> 1"
proof (cases "\<exists>s\<in>set rows. task s = a \<and> shared_with s = b")
  case True
  then obtain s where "s \<in> set rows" "task s = a" "shared_with s = b" by blast
  then show ?thesis using unique_share_filter [OF assms, of s] by simp
next
  case False
  then have "filter (\<lambda>x. task x = a \<and> shared_with x = b) rows = []"
    by (auto simp: filter_empty_conv)
  then show ?thesis by simp
qed

lemma update_or_create_result:
  assumes ok: "share_table_ok st"
  shows "\<exists>s st'. update_or_create st now tid uid p =
            Inr (s, \<not> (\<exists>x\<in>set (task_shares st). task x = tid \<and> shared_with x = uid), st') \<and>
          permission s = p \<and>
          filter (\<lambda>x. task x = tid \<and> shared_with x = uid) (task_shares st') = [s] \<and>
          users st' = users st \<and> tasks st' = tasks st"
proof (cases "\<exists>x\<in>set (task_shares st). task x = tid \<and> shared_with x = uid")
  case True
  then obtain s0 where s0: "s0 \<in> set (task_shares st)" "task s0 = tid" "shared_with s0 = uid"
    by blast
  have u: "unique_together (task_shares st)" using ok by (simp add: share_table_ok_def)
  have g: "objects_get (\<lambda>x. task x = tid \<and> shared_with x = uid) (task_shares st) = Inr s0"
    using unique_share_lookup [OF u s0(1)] s0(2,3) by simp
  define s where "s = s0\<lparr>permission := p\<rparr>"
  define st' where "st' = st\<lparr>task_shares :=
        map (\<lambda>x. if share_id x = share_id s0 then s else x) (task_shares st)\<rparr>"
  have r: "update_or_create st now tid uid p = Inr (s, False, st')"
    using g by (simp add: update_or_create_def Let_def s_def st'_def)
  have ok': "share_table_ok st'" using ok r by (rule update_or_create_ok)
  have "s \<in> set (task_shares st')"
    using s0(1) by (force simp: st'_def)
  moreover have "task s = tid" "shared_with s = uid" using s0 by (simp_all add: s_def)
  ultimately have "filter (\<lambda>x. task x = tid \<and> shared_with x = uid) (task_shares st') = [s]"
    using unique_share_filter [of "task_shares st'" s] ok' by (simp add: share_table_ok_def)
  moreover have "permission s = p" by (simp add: s_def)
  moreover have "users st' = users st" "tasks st' = tasks st" by (simp_all add: st'_def)
  ultimately show ?thesis using r True by simp
next
  case False
  then have g: "objects_get (\<lambda>x. task x = tid \<and> shared_with x = uid) (task_shares st) =
                Inl DoesNotExist"
    by (rule no_share_lookup)
  have e: "filter (\<lambda>x. task x = tid \<and> shared_with x = uid) (task_shares st) = []"
    using False by (auto simp: filter_empty_conv)
  show ?thesis
    using False g e by (simp add: update_or_create_def Let_def)
qed

lemma share_upsert_step:
  assumes r: "reachable st" and k: "keys_ok st" and t: "t \<in> set (tasks st)"
    and g: "g \<in> set (users st)" "user_id g \<noteq> owner t"
    and e: "EmailField raw = Some v" "str_lower v = email g"
    and s: "share EmailField str_lower st now (Some (owner t)) (task_id t) (share_with raw p) = (res, st')"
  shows "\<exists>row. res = Inr (row,
                   if \<exists>x\<in>set (task_shares st). task x = task_id t \<and> shared_with x = user_id g
                   then HTTP_200_OK else HTTP_201_CREATED) \<and>
               permission row = p \<and>
               filter (\<lambda>x. task x = task_id t \<and> shared_with x = user_id g) (task_shares st') = [row] \<and>
               users st' = users st \<and> tasks st' = tasks st \<and> reachable st'"
proof -
  have ok: "share_table_ok st" using r by (rule reachable_ok)
  have pf: "permission_field (Some (choice_value p)) = Inr p"
    by (cases p) (simp_all add: permission_field_def)
  obtain row st2 where u: "update_or_create st now (task_id t) (user_id g) p =
            Inr (row, \<not> (\<exists>x\<in>set (task_shares st). task x = task_id t \<and> shared_with x = user_id g), st2)"
      "permission row = p"
      "filter (\<lambda>x. task x = task_id t \<and> shared_with x = user_id g) (task_shares st2) = [row]"
      "users st2 = users st" "tasks st2 = tasks st"
    using update_or_create_result [OF ok, of now "task_id t" "user_id g" p] by blast
  have eq: "share EmailField str_lower st now (Some (owner t)) (task_id t) (share_with raw p) =
        (Inr (row, if \<exists>x\<in>set (task_shares st). task x = task_id t \<and> shared_with x = user_id g
                   then HTTP_200_OK else HTTP_201_CREATED), st2)"
    using share_by_owner [where EmailField = EmailField and str_lower = str_lower and raw = raw, OF k t g(1) e pf, of now]
      g(2) u(1)
    by (auto simp: share_with_def)
  have "reachable (snd (share EmailField str_lower st now (Some (owner t)) (task_id t) (share_with raw p)))"
    using r by (rule reachable.after_share)
  then have "reachable st2" by (simp add: eq)
  then show ?thesis using s eq u by simp
qed

text \<open>
  Claim C3. In a reachable state with no share of \<open>t\<close> with \<open>g\<close> (a user other than the
  owner), when the owner of \<open>t\<close> shares \<open>t\<close> with \<open>g\<close> twice: the first answer carries 201
  (created) and the second 200 (updated), and afterwards exactly one share row of \<open>t\<close> with
  \<open>g\<close> exists, with the permission of the second call. In every reachable state at most one
  share row exists for a task and a grantee.
\<close>

theorem share_twice_upserts:
  assumes "reachable st" and "keys_ok st" and "t \<in> set (tasks st)"
    and "g \<in> set (users st)" and "user_id g \<noteq> owner t"
    and "\<not> (\<exists>x\<in>set (task_shares st). task x = task_id t \<and> shared_with x = user_id g)"
    and "EmailField raw1 = Some v1" and "str_lower v1 = email g"
    and "EmailField raw2 = Some v2" and "str_lower v2 = email g"
    and "share EmailField str_lower st now1 (Some (owner t)) (task_id t) (share_with raw1 p1) = (res1, st1)"
    and "share EmailField str_lower st1 now2 (Some (owner t)) (task_id t) (share_with raw2 p2) = (res2, st2)"
  shows "(\<exists>row. res1 = Inr (row, HTTP_201_CREATED) \<and> permission row = p1) \<and>
         (\<exists>row. res2 = Inr (row, HTTP_200_OK) \<and> permission row = p2 \<and>
            filter (\<lambda>x. task x = task_id t \<and> shared_with x = user_id g) (task_shares st2) = [row]) \<and>
         length (filter (\<lambda>x. task x = a \<and> shared_with x = b) (task_shares st)) \<le> 1 \<and>
         length (filter (\<lambda>x. task x = a \<and> shared_with x = b) (task_shares st2)) \<le> 1"
proof -
  obtain row1 where one: "res1 = Inr (row1,
             if \<exists>x\<in>set (task_shares st). task x = task_id t \<and> shared_with x = user_id g
             then HTTP_200_OK else HTTP_201_CREATED)"
      "permission row1 = p1"
      "filter (\<lambda>x. task x = task_id t \<and> shared_with x = user_id g) (task_shares st1) = [row1]"
      "users st1 = users st" "tasks st1 = tasks st" "reachable st1"
    using share_upsert_step [where EmailField = EmailField and str_lower = str_lower and raw = raw1,
            OF assms(1,2,3,4,5,7,8,11)] by blast
  have "row1 \<in> set (filter (\<lambda>x. task x = task_id t \<and> shared_with x = user_id g) (task_shares st1))"
    by (simp add: one(3))
  then have ex: "\<exists>x\<in>set (task_shares st1). task x = task_id t \<and> shared_with x = user_id g"
    by auto
  have k1: "keys_ok st1" using assms(2) one(4,5) by (simp add: keys_ok_def)
  have t1: "t \<in> set (tasks st1)" using assms(3) one(5) by simp
  have g1: "g \<in> set (users st1)" using assms(4) one(4) by simp
  obtain row2 where two: "res2 = Inr (row2,
             if \<exists>x\<in>set (task_shares st1). task x = task_id t \<and> shared_with x = user_id g
             then HTTP_200_OK else HTTP_201_CREATED)"
      "permission row2 = p2"
      "filter (\<lambda>x. task x = task_id t \<and> shared_with x = user_id g) (task_shares st2) = [row2]"
      "reachable st2"
    using share_upsert_step [where EmailField = EmailField and str_lower = str_lower and raw = raw2,
            OF one(6) k1 t1 g1 assms(5,9,10,12)] by blast
  have u: "unique_together (task_shares st)" using assms(1) by (rule reachable_unique)
  have u2: "unique_together (task_shares st2)" using two(4) by (rule reachable_unique)
  show ?thesis
    using one(1,2) two(1,2,3) ex assms(6) unique_length_filter [OF u] unique_length_filter [OF u2]
    by simp
qed

theorem share_twice_upserts_witness:
  "reachable example_db \<and> keys_ok example_db \<and> report \<in> set (tasks example_db) \<and>
   bob \<in> set (users example_db) \<and> user_id bob \<noteq> owner report \<and>
   task_shares example_db = [] \<and>
   ascii_lower ''Bob@Example.com'' = email bob \<and> ascii_lower ''bob@example.com'' = email bob \<and>
   share Some ascii_lower example_db 10 (Some 1) 1 (share_with ''Bob@Example.com'' VIEW) =
     (Inr (bob_share VIEW, 201),
      example_db\<lparr>task_shares := [bob_share VIEW], next_share_id := 2\<rparr>) \<and>
   share Some ascii_lower (example_db\<lparr>task_shares := [bob_share VIEW], next_share_id := 2\<rparr>) 20 (Some 1) 1
       (share_with ''bob@example.com'' EDIT) =
     (Inr (bob_share EDIT, 200),
      example_db\<lparr>task_shares := [bob_share EDIT], next_share_id := 2\<rparr>) \<and>
   length (filter (\<lambda>x. task x = 1 \<and> shared_with x = 2)
             (task_shares (example_db\<lparr>task_shares := [bob_share EDIT], next_share_id := 2\<rparr>))) \<le> 1"
proof -
  have r: "reachable example_db" by (rule reachable.initial) (simp add: example_db_def)
  have k: "keys_ok example_db" by code_simp
  have t: "report \<in> set (tasks example_db)" by (simp add: example_db_def)
  have g: "bob \<in> set (users example_db)" by (simp add: example_db_def)
  have n: "user_id bob \<noteq> owner report" by (simp add: bob_def report_def)
  have z: "task_shares example_db = []" by (simp add: example_db_def)
  then have f: "\<not> (\<exists>x\<in>set (task_shares example_db).
                    task x = task_id report \<and> shared_with x = user_id bob)"
    by simp
  have o: "owner report = 1" "task_id report = 1" by (simp_all add: report_def)
  have e1: "Some ''Bob@Example.com'' = Some ''Bob@Example.com''" by simp
  have l1: "ascii_lower ''Bob@Example.com'' = email bob" by code_simp
  have e2: "Some ''bob@example.com'' = Some ''bob@example.com''" by simp
  have l2: "ascii_lower ''bob@example.com'' = email bob" by code_simp
  have s1: "share Some ascii_lower example_db 10 (Some (owner report)) (task_id report)
              (share_with ''Bob@Example.com'' VIEW) =
     (Inr (bob_share VIEW, 201),
      example_db\<lparr>task_shares := [bob_share VIEW], next_share_id := 2\<rparr>)"
    unfolding o by code_simp
  have s2: "share Some ascii_lower (example_db\<lparr>task_shares := [bob_share VIEW], next_share_id := 2\<rparr>) 20
              (Some (owner report)) (task_id report) (share_with ''bob@example.com'' EDIT) =
     (Inr (bob_share EDIT, 200),
      example_db\<lparr>task_shares := [bob_share EDIT], next_share_id := 2\<rparr>)"
    unfolding o by code_simp
  have "length (filter (\<lambda>x. task x = 1 \<and> shared_with x = 2)
             (task_shares (example_db\<lparr>task_shares := [bob_share EDIT], next_share_id := 2\<rparr>))) \<le> 1"
    using share_twice_upserts [where EmailField = Some and str_lower = ascii_lower and ?raw1.0 = "''Bob@Example.com''"
        and ?raw2.0 = "''bob@example.com''" and a = 1 and b = 2, OF r k t g n f e1 l1 e2 l2 s1 s2]
    by simp
  then show ?thesis using r k t g n z l1 l2 s1 s2 by (simp add: o)
qed

section \<open>A grantee with an edit share\<close>

lemma grantee_get_object:
  assumes k: "keys_ok st" and t: "t \<in> set (tasks st)"
    and s: "s \<in> set (task_shares st)" "task s = task_id t" "shared_with s = g"
  shows "get_object st g (task_id t) perm =
         (case perm t of
            Inl e \<Rightarrow> Inl (Server_error e)
          | Inr allowed \<Rightarrow> if allowed then Inr t else Inl PermissionDenied)"
proof -
  have d: "distinct (map task_id (tasks st))" using k by (simp add: keys_ok_def)
  have v: "owner t = g \<or>
      (\<exists>s\<in>set (task_shares st). task s = task_id t \<and> shared_with s = g)"
    using s by blast
  show ?thesis using d t v by (rule get_object_visible)
qed

text \<open>
  Claim C4. For every task \<open>t\<close> and every user \<open>g\<close>, not the owner, who holds an Edit share
  of \<open>t\<close>: an update of \<open>t\<close> (PUT or PATCH) is allowed, its answer being that of the
  validation of the data; deleting \<open>t\<close> and the three share-management actions on \<open>t\<close>
  (share, list the shares, revoke a share) are refused with status 403 and leave the state
  as it was.
\<close>

theorem edit_grantee_updates_but_owner_powers_refused:
  assumes "reachable st" and "keys_ok st" and "t \<in> set (tasks st)"
    and "s \<in> set (task_shares st)" and "task s = task_id t" and "shared_with s = g"
    and "permission s = EDIT" and "g \<noteq> owner t"
  shows "fst (update serializer st (Some g) PUT (task_id t) data) =
           (case serializer data t of
              Inl errors \<Rightarrow> Inl (Validation_failed errors) | Inr t' \<Rightarrow> Inr t') \<and>
         fst (update serializer st (Some g) PATCH (task_id t) data) =
           (case serializer data t of
              Inl errors \<Rightarrow> Inl (Validation_failed errors) | Inr t' \<Rightarrow> Inr t') \<and>
         destroy st (Some g) (task_id t) = (Inl Only_owner_can_delete, st) \<and>
         share EmailField str_lower st now (Some g) (task_id t) req = (Inl PermissionDenied, st) \<and>
         shares st (Some g) (task_id t) = Inl PermissionDenied \<and>
         revoke_share st (Some g) (task_id t) uid = (Inl PermissionDenied, st) \<and>
         status_code Only_owner_can_delete = 403 \<and> status_code PermissionDenied = 403"
proof -
  have u: "unique_together (task_shares st)" using assms(1) by (rule reachable_unique)
  have p: "\<And>m. IsTaskOwnerOrSharedWith_has_object_permission (task_shares st) g m t =
           Inr (m \<in> SAFE_METHODS \<or> True)"
    unfolding has_object_permission_eval [OF u] using assms(4,5,6,7) by auto
  have edit: "\<And>m. get_object st g (task_id t)
                (IsTaskOwnerOrSharedWith_has_object_permission (task_shares st) g m) = Inr t"
    by (simp add: grantee_get_object [OF assms(2,3,4,5,6)] p)
  have own: "get_object st g (task_id t) (CanShareTask_has_object_permission g) =
             Inl PermissionDenied"
    using assms(8)
    by (simp add: grantee_get_object [OF assms(2,3,4,5,6)] CanShareTask_has_object_permission_def)
  have 1: "fst (update serializer st (Some g) PUT (task_id t) data) =
           (case serializer data t of
              Inl errors \<Rightarrow> Inl (Validation_failed errors) | Inr t' \<Rightarrow> Inr t')"
    by (simp add: update_def edit split: sum.splits)
  have 2: "fst (update serializer st (Some g) PATCH (task_id t) data) =
           (case serializer data t of
              Inl errors \<Rightarrow> Inl (Validation_failed errors) | Inr t' \<Rightarrow> Inr t')"
    by (simp add: update_def edit split: sum.splits)
  have 3: "destroy st (Some g) (task_id t) = (Inl Only_owner_can_delete, st)"
    using assms(8) by (simp add: destroy_def edit)
  have 4: "share EmailField str_lower st now (Some g) (task_id t) req = (Inl PermissionDenied, st)"
    by (simp add: share_def own)
  have 5: "shares st (Some g) (task_id t) = Inl PermissionDenied"
    by (simp add: shares_def own)
  have 6: "revoke_share st (Some g) (task_id t) uid = (Inl PermissionDenied, st)"
    by (simp add: revoke_share_def own)
  show ?thesis using 1 2 3 4 5 6 by simp
qed

theorem edit_grantee_updates_but_owner_powers_refused_witness:
  "reachable (example_db\<lparr>task_shares := [bob_share EDIT], next_share_id := 2\<rparr>) \<and>
   keys_ok (example_db\<lparr>task_shares := [bob_share EDIT], next_share_id := 2\<rparr>) \<and>
   permission (bob_share EDIT) = EDIT \<and> shared_with (bob_share EDIT) \<noteq> owner report \<and>
   fst (update (\<lambda>d t. Inr (t\<lparr>title := d\<rparr>))
          (example_db\<lparr>task_shares := [bob_share EDIT], next_share_id := 2\<rparr>) (Some 2) PUT 1
          ''final report'') = Inr (report\<lparr>title := ''final report''\<rparr>) \<and>
   destroy (example_db\<lparr>task_shares := [bob_share EDIT], next_share_id := 2\<rparr>) (Some 2) 1 =
     (Inl Only_owner_can_delete, example_db\<lparr>task_shares := [bob_share EDIT], next_share_id := 2\<rparr>) \<and>
   revoke_share (example_db\<lparr>task_shares := [bob_share EDIT], next_share_id := 2\<rparr>) (Some 2) 1 2 =
     (Inl PermissionDenied, example_db\<lparr>task_shares := [bob_share EDIT], next_share_id := 2\<rparr>)"
proof -
  define db where "db = example_db\<lparr>task_shares := [bob_share EDIT], next_share_id := 2\<rparr>"
  have r: "reachable db" unfolding db_def by (rule example_reachable)
  have k: "keys_ok db" unfolding db_def by code_simp
  have t: "report \<in> set (tasks db)" by (simp add: db_def example_db_def)
  have s: "bob_share EDIT \<in> set (task_shares db)" by (simp add: db_def)
  have a: "task (bob_share EDIT) = task_id report" by (simp add: bob_share_def report_def)
  have b: "shared_with (bob_share EDIT) = 2" by (simp add: bob_share_def)
  have c: "permission (bob_share EDIT) = EDIT" by (simp add: bob_share_def)
  have d: "2 \<noteq> owner report" by (simp add: report_def)
  have i: "task_id report = 1" by (simp add: report_def)
  note th = edit_grantee_updates_but_owner_powers_refused
      [where serializer = "\<lambda>d t. Inr (t\<lparr>title := d\<rparr>)" and data = "''final report''"
         and EmailField = Some and now = 0 and uid = 2
         and req = "share_with ''carol@example.com'' VIEW", OF r k t s a b c d]
  have "fst (update (\<lambda>d t. Inr (t\<lparr>title := d\<rparr>)) db (Some 2) PUT 1 ''final report'') =
        Inr (report\<lparr>title := ''final report''\<rparr>)"
    using th by (simp add: i)
  moreover have "destroy db (Some 2) 1 = (Inl Only_owner_can_delete, db)"
    using th by (simp add: i)
  moreover have "revoke_share db (Some 2) 1 2 = (Inl PermissionDenied, db)"
    using th by (simp add: i)
  ultimately show ?thesis using r k b c d unfolding db_def by simp
qed

end
